(* ===== verification/Models.thy ===== *)
theory Models
  imports Prelude
begin

text \<open>
  The records the scripts pass around: the reference entities loaded from the JSON data
  files (\<open>Category\<close>, \<open>Language\<close>, \<open>Channel\<close>, \<open>Blocked\<close>), the \<open>Stream\<close> record
  produced by the playlist parser or read from the stream database, and the \<open>LogItem\<close> of
  the validator (validate.ts, lines 12--16).  The model classes live outside the
  scripts (src/models is not part of the sources), so their fields follow the spec's data
  model: an optional JavaScript value (\<open>null\<close>/\<open>undefined\<close>) is an \<open>option\<close>.
\<close>

record Category =
  cat_id :: string
  cat_name :: string

record Language =
  lang_code :: string
  lang_name :: string

record Channel =
  ch_id :: string
  ch_categories :: "string list"
  ch_languages :: "string list"
  ch_broadcastArea :: "string list"
  ch_isNSFW :: bool
  ch_logo :: "string option"

record Blocked =
  bl_channel :: string
  bl_ref :: string

text \<open>
  A stream: \<open>st_channel\<close> is \<open>None\<close> for a stream bound to no channel; \<open>st_line\<close> is the
  1-based position in its playlist (0 for a database row); \<open>st_filepath\<close> is the playlist
  file it came from.
\<close>

record Stream =
  st_channel :: "string option"
  st_name :: string
  st_url :: string
  st_logo :: "string option"
  st_categories :: "Category list"
  st_languages :: "Language list"
  st_broadcastArea :: "string list"
  st_isNSFW :: bool
  st_line :: nat
  st_filepath :: string

text \<open>\<open>LogItem.type\<close> only ever holds \<open>'error'\<close> or \<open>'warning'\<close>.\<close>

datatype log_type = LError | LWarning

record LogItem =
  log_type :: log_type
  log_line :: nat
  log_message :: string

definition log_type_string :: "log_type \<Rightarrow> string" where
  "log_type_string t = (case t of LError \<Rightarrow> ''error'' | LWarning \<Rightarrow> ''warning'')"

text \<open>JavaScript truthiness of an optional string: defined and not empty.\<close>

definition truthy :: "string option \<Rightarrow> bool" where
  "truthy v = (case v of None \<Rightarrow> False | Some s \<Rightarrow> s \<noteq> [])"

lemma truthy_Some [simp]: "truthy (Some s) \<longleftrightarrow> s \<noteq> []"
  and truthy_None [simp]: "\<not> truthy None"
  by (simp_all add: truthy_def)

end
