(* ===== verification/ChannelIndex.thy ===== *)
theory ChannelIndex
  imports Models
begin

text \<open>
  The lookup structures over the reference data.  generate.ts (lines 109--111) indexes the
  channels by \<open>id\<close>, the categories by \<open>id\<close> and the languages by \<open>code\<close> with
  \<open>Collection.keyBy\<close> (lodash's \<open>keyBy\<close>: each element is stored under its key, a later
  element overwriting an earlier one); validate.ts (line 48) searches the channel list
  linearly with \<open>Collection.first(predicate)\<close>.  A keyed index is a map
  \<open>'k \<rightharpoonup> 'a\<close>; \<open>get\<close> of a missing key is \<open>None\<close>, never an error.
\<close>

subsection \<open>Collection operations\<close>

definition key_by :: "('a \<Rightarrow> 'k) \<Rightarrow> 'a list \<Rightarrow> 'k \<rightharpoonup> 'a" where
  "key_by f xs = fold (\<lambda>x m. m(f x \<mapsto> x)) xs Map.empty"

text \<open>\<open>Collection.first(pred)\<close>: the first element satisfying \<open>pred\<close>, if any.\<close>

definition first_by :: "('a \<Rightarrow> bool) \<Rightarrow> 'a list \<Rightarrow> 'a option" where
  "first_by p xs = find p xs"

subsection \<open>The indexes of the reconciler\<close>

definition groupedChannels :: "Channel list \<Rightarrow> string \<rightharpoonup> Channel" where
  "groupedChannels channels = key_by ch_id channels"

definition groupedCategories :: "Category list \<Rightarrow> string \<rightharpoonup> Category" where
  "groupedCategories categories = key_by cat_id categories"

definition groupedLanguages :: "Language list \<Rightarrow> string \<rightharpoonup> Language" where
  "groupedLanguages languages = key_by lang_code languages"

text \<open>\<open>groupedChannels.get(stream.channel)\<close>: a stream with no channel finds none.\<close>

definition channel_get :: "(string \<rightharpoonup> Channel) \<Rightarrow> string option \<Rightarrow> Channel option" where
  "channel_get idx c = (case c of None \<Rightarrow> None | Some k \<Rightarrow> idx k)"

text \<open>
  \<open>ids.map(id => index.get(id)).filter(Boolean)\<close>: look every id up and drop the
  misses, keeping the order of the ids.
\<close>

definition lookup_all :: "('k \<rightharpoonup> 'a) \<Rightarrow> 'k list \<Rightarrow> 'a list" where
  "lookup_all idx ids = List.map_filter idx ids"

text \<open>The validator's test: a channel with this id exists.\<close>

definition channel_in_database :: "Channel list \<Rightarrow> string \<Rightarrow> bool" where
  "channel_in_database channels c = (first_by (\<lambda>ch. ch_id ch = c) channels \<noteq> None)"

subsection \<open>Lemmas\<close>

lemma key_by_append: "key_by f (xs @ [x]) = (key_by f xs)(f x \<mapsto> x)"
  by (simp add: key_by_def)

lemma key_by_filter_last:
  "key_by f xs k =
     (case filter (\<lambda>x. f x = k) xs of [] \<Rightarrow> None | ys \<Rightarrow> Some (last ys))"
  by (induction xs rule: rev_induct) (auto simp: key_by_def split: list.splits)

lemma key_by_None_iff: "key_by f xs k = None \<longleftrightarrow> k \<notin> f ` set xs"
proof -
  have "key_by f xs k = None \<longleftrightarrow> filter (\<lambda>x. f x = k) xs = []"
    by (simp add: key_by_filter_last split: list.splits)
  also have "\<dots> \<longleftrightarrow> k \<notin> f ` set xs" by (auto simp: filter_empty_conv)
  finally show ?thesis .
qed

lemma key_by_SomeD: "key_by f xs k = Some x \<Longrightarrow> x \<in> set xs \<and> f x = k"
proof -
  assume "key_by f xs k = Some x"
  then obtain y ys where "filter (\<lambda>x. f x = k) xs = y # ys" and "x = last (y # ys)"
    by (auto simp: key_by_filter_last split: list.splits)
  then have "x \<in> set (filter (\<lambda>x. f x = k) xs)" by (metis last_in_set list.distinct(1))
  then show ?thesis by simp
qed

lemma find_None_iff': "find p xs = None \<longleftrightarrow> (\<forall>x \<in> set xs. \<not> p x)"
  by (induction xs) auto

lemma set_lookup_all: "set (lookup_all idx ids) = {a. \<exists>k \<in> set ids. idx k = Some a}"
  by (induction ids) (auto simp: lookup_all_def split: option.splits)

lemma find_append':
  "find p (xs @ ys) = (case find p xs of None \<Rightarrow> find p ys | Some x \<Rightarrow> Some x)"
  by (induction xs) auto

lemma key_by_distinct_find:
  "distinct (map f xs) \<Longrightarrow> key_by f xs k = find (\<lambda>x. f x = k) xs"
proof (induction xs rule: rev_induct)
  case Nil
  then show ?case by (simp add: key_by_def)
next
  case (snoc x xs)
  then have fx: "f x \<notin> f ` set xs" and "distinct (map f xs)" by auto
  show ?case
  proof (cases "k = f x")
    case True
    with fx have "find (\<lambda>y. f y = k) xs = None" unfolding find_None_iff' by (metis image_eqI)
    with True show ?thesis by (simp add: key_by_append find_append')
  next
    case False
    with snoc.IH \<open>distinct (map f xs)\<close> show ?thesis
      by (auto simp: key_by_append find_append' split: option.splits)
  qed
qed

lemma map_key_lookup_all:
  "map f (lookup_all (key_by f xs) ids) = filter (\<lambda>i. i \<in> f ` set xs) ids"
proof (induction ids)
  case Nil
  then show ?case by (simp add: lookup_all_def)
next
  case (Cons i ids)
  show ?case
  proof (cases "key_by f xs i")
    case None
    then have "i \<notin> f ` set xs" by (simp add: key_by_None_iff)
    with None Cons.IH show ?thesis by (simp add: lookup_all_def)
  next
    case (Some x)
    then have "x \<in> set xs \<and> f x = i" by (rule key_by_SomeD)
    with Some Cons.IH show ?thesis by (auto simp: lookup_all_def)
  qed
qed

lemma first_by_SomeD: "first_by p xs = Some x \<Longrightarrow> x \<in> set xs \<and> p x"
  by (induction xs) (auto simp: first_by_def split: if_splits)

subsection \<open>Properties\<close>

text \<open>
  The validator and the reconciler agree on which channels exist: the linear search of
  validate.ts finds a channel with a given id exactly when the \<open>keyBy\<close> index of
  generate.ts has an entry for it, duplicates or not.
\<close>

theorem channel_in_database_iff_indexed:
  "channel_in_database channels c \<longleftrightarrow> groupedChannels channels c \<noteq> None"
  by (auto simp: channel_in_database_def first_by_def groupedChannels_def key_by_None_iff
      find_None_iff')

end
