(* ===== verification/Playlist.thy ===== *)
theory Playlist
  imports Models
begin

text \<open>
  Playlist files: the path helpers of the \<open>File\<close> class (src/core is not part of the
  sources, so \<open>basename\<close>, \<open>extension\<close> and \<open>getFilename\<close> follow Node's \<open>path\<close>
  module), the two file-name patterns the scripts use to guess a country --
  validate.ts line 39 (\<open>/([a-z]{2})(|_.*)\.m3u/i\<close> on the base name) and generate.ts
  lines 137--139 (\<open>/^([a-z]{2})(_|$)/\<close> on the name without extension) -- and the
  playlist parser of the spec (4.1), which turns a document into streams with their line
  numbers or fails with a message.
\<close>

subsection \<open>Paths\<close>

definition basename :: "string \<Rightarrow> string" where
  "basename p = rev (takeWhile (\<lambda>c. c \<noteq> CHR ''/'') (rev p))"

text \<open>\<open>File.extension()\<close>: the text after the last dot (\<open>split('.').pop()\<close>).\<close>

definition extension :: "string \<Rightarrow> string" where
  "extension p = rev (takeWhile (\<lambda>c. c \<noteq> CHR ''.'') (rev p))"

text \<open>
  \<open>File.getFilename()\<close>, i.e.\ \<open>path.parse(p).name\<close>: the base name without its
  last extension; a leading dot does not start an extension.
\<close>

definition getFilename :: "string \<Rightarrow> string" where
  "getFilename p =
     (let b = basename p; k = length (takeWhile (\<lambda>c. c \<noteq> CHR ''.'') (rev b)) in
      if k < length b \<and> Suc k < length b then take (length b - Suc k) b else b)"

subsection \<open>The country hint of the validator\<close>

text \<open>
  \<open>/([a-z]{2})(|_.*)\.m3u/i\<close> is unanchored and case-insensitive.  At a start position
  it needs two letters, then either \<open>.m3u\<close> at once, or \<open>_\<close>, any text without a line
  terminator (\<open>.\<close> does not match one), and \<open>.m3u\<close>.  The match is the leftmost
  such position; group 1 is its two letters.
\<close>

definition is_line_terminator :: "char \<Rightarrow> bool" where
  "is_line_terminator c \<longleftrightarrow> c = CHR ''\<newline>'' \<or> c = CHR 0x0D"

fun starts_m3u :: "string \<Rightarrow> bool" where
  "starts_m3u (d # m # t # u # _) =
     (d = CHR ''.'' \<and> lower_char m = CHR ''m'' \<and> t = CHR ''3'' \<and> lower_char u = CHR ''u'')"
| "starts_m3u _ = False"

fun m3u_later :: "string \<Rightarrow> bool" where
  "m3u_later [] = False"
| "m3u_later (c # cs) = (starts_m3u (c # cs) \<or> (\<not> is_line_terminator c \<and> m3u_later cs))"

fun hint_at :: "string \<Rightarrow> bool" where
  "hint_at (a # b # r) =
     (is_letter a \<and> is_letter b \<and>
      (starts_m3u r \<or> (r \<noteq> [] \<and> hd r = CHR ''_'' \<and> m3u_later (tl r))))"
| "hint_at _ = False"

fun find_hint :: "string \<Rightarrow> string option" where
  "find_hint [] = None"
| "find_hint (c # cs) = (if hint_at (c # cs) then Some (take 2 (c # cs)) else find_hint cs)"

text \<open>\<open>const [, countryCode] = base.match(re) || [null, '']\<close>.\<close>

definition countryCode_of :: "string \<Rightarrow> string" where
  "countryCode_of base = (case find_hint base of Some cc \<Rightarrow> cc | None \<Rightarrow> [])"

subsection \<open>The default broadcast area of the reconciler\<close>

text \<open>\<open>/^([a-z]{2})(_|$)/\<close>: anchored, lower case only, \<open>$\<close> is the end of the name.\<close>

fun area_code :: "string \<Rightarrow> string option" where
  "area_code (a # b # r) =
     (if is_lower a \<and> is_lower b \<and> (r = [] \<or> hd r = CHR ''_'') then Some [a, b] else None)"
| "area_code _ = None"

definition default_broadcast_area :: "string \<Rightarrow> string list" where
  "default_broadcast_area fname =
     (case area_code fname of Some cc \<Rightarrow> [''c/'' @ toUpperCase cc] | None \<Rightarrow> [])"

subsection \<open>The playlist parser\<close>

text \<open>
  The parser is a collaborator of the scripts (src/core is not part of the sources); it is
  modelled from the spec's contract (4.1, 6).  A document is split into lines; the first
  must start with \<open>#EXTM3U\<close>.  An \<open>#EXTINF:\<close> line is a metadata directive carrying
  the attributes \<open>tvg-id\<close> and \<open>tvg-logo\<close> (each absent attribute is empty) and the
  display name after the first comma outside quotes; the next non-empty line that is not a
  comment is the stream URL, and the stream gets the directive's 1-based line number.  A URL
  line with no pending directive is a parse error.  A directive with no URL before the next
  directive or the end of the document is dropped, which the spec leaves open.
\<close>

fun split_lines :: "string \<Rightarrow> string list" where
  "split_lines [] = [[]]"
| "split_lines (c # cs) =
     (if c = CHR ''\<newline>'' then [] # split_lines cs
      else (case split_lines cs of [] \<Rightarrow> [[c]] | l # ls \<Rightarrow> (c # l) # ls))"

definition quote :: char where
  "quote = CHR 0x22"

fun attr_value :: "string \<Rightarrow> string \<Rightarrow> string" where
  "attr_value k [] = []"
| "attr_value k (c # cs) =
     (if take (length k + 2) (c # cs) = k @ [CHR ''='', quote]
      then takeWhile (\<lambda>x. x \<noteq> quote) (drop (length k + 2) (c # cs))
      else attr_value k cs)"

fun title_of :: "bool \<Rightarrow> string \<Rightarrow> string" where
  "title_of q [] = []"
| "title_of q (c # cs) =
     (if c = quote then title_of (\<not> q) cs
      else if c = CHR '','' \<and> \<not> q then cs
      else title_of q cs)"

record Directive =
  d_channel :: string
  d_name :: string
  d_logo :: string
  d_line :: nat

definition directive_of :: "nat \<Rightarrow> string \<Rightarrow> Directive" where
  "directive_of n t =
     \<lparr>d_channel = attr_value ''tvg-id'' t, d_name = trim (title_of False t),
      d_logo = attr_value ''tvg-logo'' t, d_line = n\<rparr>"

definition stream_of :: "string \<Rightarrow> Directive \<Rightarrow> string \<Rightarrow> Stream" where
  "stream_of fp d u =
     \<lparr>st_channel = Some (d_channel d), st_name = d_name d, st_url = u,
      st_logo = (if d_logo d = [] then None else Some (d_logo d)),
      st_categories = [], st_languages = [], st_broadcastArea = [], st_isNSFW = False,
      st_line = d_line d, st_filepath = fp\<rparr>"

fun parse_lines :: "string \<Rightarrow> nat \<Rightarrow> Directive option \<Rightarrow> string list \<Rightarrow> string + Stream list" where
  "parse_lines fp n pend [] = Inr []"
| "parse_lines fp n pend (l # ls) =
     (let t = trim l in
      if t = [] then parse_lines fp (Suc n) pend ls
      else if take 8 t = ''#EXTINF:'' then parse_lines fp (Suc n) (Some (directive_of n t)) ls
      else if hd t = CHR ''#'' then parse_lines fp (Suc n) pend ls
      else (case pend of
              None \<Rightarrow> Inl (''Stream URL without a metadata directive at line '' @ string_of_nat n)
            | Some d \<Rightarrow>
                (case parse_lines fp (Suc n) None ls of
                   Inl e \<Rightarrow> Inl e
                 | Inr ss \<Rightarrow> Inr (stream_of fp d t # ss))))"

definition parse_playlist :: "string \<Rightarrow> string \<Rightarrow> string + Stream list" where
  "parse_playlist fp content =
     (case split_lines content of
        h # ls \<Rightarrow>
          if take 7 (trim h) = ''#EXTM3U'' then parse_lines fp 2 None ls
          else Inl ''Playlist is not valid''
      | [] \<Rightarrow> Inl ''Playlist is not valid'')"

text \<open>A line the parser passes over: blank, or a comment other than a directive.\<close>

definition skip_line :: "string \<Rightarrow> bool" where
  "skip_line t \<longleftrightarrow> t = [] \<or> (take 8 t \<noteq> ''#EXTINF:'' \<and> hd t = CHR ''#'')"

subsection \<open>File-name pattern lemmas\<close>

lemma m3u_later_suffix:
  "\<forall>c \<in> set x. \<not> is_line_terminator c \<Longrightarrow> m3u_later (x @ ''.m3u'')"
  by (induction x) auto

lemma basename_append:
  "CHR ''/'' \<notin> set f \<Longrightarrow> basename (d @ CHR ''/'' # f) = f"
proof -
  assume "CHR ''/'' \<notin> set f"
  then have "takeWhile (\<lambda>c. c \<noteq> CHR ''/'') (rev f @ CHR ''/'' # rev d) = rev f"
    by (induction f rule: rev_induct) auto
  then show ?thesis by (simp add: basename_def)
qed

lemma area_code_SomeE:
  assumes "area_code f = Some cc"
  obtains a b r where "f = a # b # r" "cc = [a, b]" "is_lower a" "is_lower b"
    "r = [] \<or> hd r = CHR ''_''"
  using assms by (cases f rule: area_code.cases) (auto split: if_splits)

lemma lower_is_letter: "is_lower c \<Longrightarrow> is_letter c"
  by (simp add: is_letter_def)

lemma find_hint_area_code:
  assumes "area_code f = Some cc" and "\<forall>c \<in> set f. \<not> is_line_terminator c"
  shows "find_hint (f @ ''.m3u'') = Some cc"
proof -
  obtain a b r where f: "f = a # b # r" "cc = [a, b]" "is_lower a" "is_lower b"
    and r: "r = [] \<or> hd r = CHR ''_''"
    using assms(1) by (rule area_code_SomeE)
  have "hint_at (f @ ''.m3u'')"
  proof (cases r)
    case Nil
    with f show ?thesis by (simp add: lower_is_letter)
  next
    case (Cons u r')
    with r have "u = CHR ''_''" by simp
    moreover have "m3u_later (r' @ ''.m3u'')"
      using assms(2) f Cons by (intro m3u_later_suffix) auto
    ultimately show ?thesis using f Cons by (simp add: lower_is_letter)
  qed
  with f show ?thesis by simp
qed

lemma getFilename_m3u:
  assumes "CHR ''/'' \<notin> set f" and "2 \<le> length f"
  shows "getFilename (d @ CHR ''/'' # f @ ''.m3u'') = f"
proof -
  have b: "basename (d @ CHR ''/'' # f @ ''.m3u'') = f @ ''.m3u''"
    using assms(1) by (simp add: basename_append)
  have "takeWhile (\<lambda>c. c \<noteq> CHR ''.'') (rev (f @ ''.m3u'')) = ''u3m''" by simp
  moreover have "f \<noteq> []" using assms(2) by auto
  ultimately show ?thesis using b by (simp add: getFilename_def Let_def)
qed

lemma find_hint_drop: "hint_at (drop i s) \<Longrightarrow> find_hint s \<noteq> None"
proof (induction s arbitrary: i)
  case Nil
  then show ?case by simp
next
  case (Cons c cs)
  then show ?case by (cases i) (auto split: if_splits)
qed

lemma find_hint_length: "find_hint s = Some cc \<Longrightarrow> length cc = 2"
  by (induction s rule: find_hint.induct) (auto split: if_splits elim: hint_at.elims)

subsection \<open>Parser lemmas\<close>

lemma parse_lines_skip:
  "skip_line (trim l) \<Longrightarrow> parse_lines fp n pend (l # ls) = parse_lines fp (Suc n) pend ls"
  by (auto simp: skip_line_def Let_def)

lemma parse_lines_directive:
  "trim l \<noteq> [] \<Longrightarrow> take 8 (trim l) = ''#EXTINF:'' \<Longrightarrow>
   parse_lines fp n pend (l # ls) = parse_lines fp (Suc n) (Some (directive_of n (trim l))) ls"
  by (simp add: Let_def)

lemma parse_lines_url:
  "\<not> skip_line (trim l) \<Longrightarrow> take 8 (trim l) \<noteq> ''#EXTINF:'' \<Longrightarrow>
   parse_lines fp n pend (l # ls) =
     (case pend of
        None \<Rightarrow> Inl (''Stream URL without a metadata directive at line '' @ string_of_nat n)
      | Some d \<Rightarrow> (case parse_lines fp (Suc n) None ls of
                     Inl e \<Rightarrow> Inl e | Inr ss \<Rightarrow> Inr (stream_of fp d (trim l) # ss)))"
  by (simp add: skip_line_def Let_def)

declare parse_lines.simps(2) [simp del]

lemma parse_lines_cases:
  obtains (skip) "skip_line (trim l)"
    | (dir) "\<not> skip_line (trim l)" "take 8 (trim l) = ''#EXTINF:''"
    | (url) "\<not> skip_line (trim l)" "take 8 (trim l) \<noteq> ''#EXTINF:''"
  by blast

lemma parse_lines_lines:
  "parse_lines fp n pend ls = Inr ss \<Longrightarrow> (\<forall>d. pend = Some d \<longrightarrow> d_line d < n) \<Longrightarrow>
   sorted_wrt (<) (map st_line ss) \<and>
   (\<forall>s \<in> set ss. (case pend of Some d \<Rightarrow> d_line d | None \<Rightarrow> n) \<le> st_line s)"
proof (induction ls arbitrary: n pend ss)
  case Nil
  then show ?case by simp
next
  case (Cons l ls)
  show ?case
  proof (cases l rule: parse_lines_cases)
    case skip
    then have "parse_lines fp (Suc n) pend ls = Inr ss"
      using Cons.prems(1) by (simp add: parse_lines_skip)
    with Cons.IH [of "Suc n" pend ss] Cons.prems(2) show ?thesis
      by (fastforce split: option.splits)
  next
    case dir
    then have "parse_lines fp (Suc n) (Some (directive_of n (trim l))) ls = Inr ss"
      using Cons.prems(1) by (simp add: skip_line_def parse_lines_directive)
    with Cons.IH [of "Suc n" _ ss] Cons.prems(2) show ?thesis
      by (fastforce simp: directive_of_def split: option.splits)
  next
    case url
    then obtain d ss' where p: "pend = Some d" and r: "parse_lines fp (Suc n) None ls = Inr ss'"
      and ss: "ss = stream_of fp d (trim l) # ss'"
      using Cons.prems(1) by (auto simp: parse_lines_url split: option.splits sum.splits)
    from Cons.IH [OF r] have "sorted_wrt (<) (map st_line ss') \<and> (\<forall>s \<in> set ss'. Suc n \<le> st_line s)"
      by simp
    with p ss Cons.prems(2) show ?thesis by (fastforce simp: stream_of_def)
  qed
qed

lemma parse_lines_streams:
  "parse_lines fp n pend ls = Inr ss \<Longrightarrow> \<forall>s \<in> set ss. st_channel s \<noteq> None \<and> st_filepath s = fp"
proof (induction ls arbitrary: n pend ss)
  case Nil
  then show ?case by simp
next
  case (Cons l ls)
  show ?case
  proof (cases l rule: parse_lines_cases)
    case skip
    with Cons show ?thesis by (simp add: parse_lines_skip)
  next
    case dir
    with Cons show ?thesis by (simp add: parse_lines_directive skip_line_def)
  next
    case url
    with Cons show ?thesis
      by (auto simp: parse_lines_url stream_of_def split: option.splits sum.splits)
  qed
qed


lemma parse_playlist_streams:
  "parse_playlist fp content = Inr ss \<Longrightarrow> \<forall>s \<in> set ss. st_channel s \<noteq> None \<and> st_filepath s = fp"
  by (auto simp: parse_playlist_def split: list.splits if_splits dest: parse_lines_streams)

lemma parse_playlist_lines:
  "parse_playlist fp content = Inr ss \<Longrightarrow> sorted_wrt (<) (map st_line ss)"
  by (auto simp: parse_playlist_def split: list.splits if_splits dest: parse_lines_lines)

subsection \<open>Properties\<close>

text \<open>
  (C24) Where the reconciler's anchored pattern finds a country prefix in a playlist's file
  name, the validator's hint agrees with it: both take the same two letters.
\<close>

theorem country_hint_agrees:
  assumes "area_code f = Some cc" and "CHR ''/'' \<notin> set f"
    and "\<forall>c \<in> set f. \<not> is_line_terminator c"
  shows "countryCode_of (basename (d @ CHR ''/'' # f @ ''.m3u'')) = cc \<and>
         default_broadcast_area (getFilename (d @ CHR ''/'' # f @ ''.m3u'')) = [''c/'' @ toUpperCase cc]"
proof -
  have "2 \<le> length f" using assms(1) by (auto elim: area_code_SomeE)
  with assms show ?thesis
    by (simp add: basename_append getFilename_m3u countryCode_of_def find_hint_area_code
        default_broadcast_area_def)
qed

theorem country_hint_agrees_witness:
  "countryCode_of (basename ''streams/fr_news.m3u'') = ''fr'' \<and>
   default_broadcast_area (getFilename ''streams/fr_news.m3u'') = [''c/FR'']"
  using country_hint_agrees [of "''fr_news''" "''fr''" "''streams''"]
  by (simp add: ascii_simps is_line_terminator_def toUpperCase_def)
text \<open>
  (C25) The validator's pattern is not anchored: every file name ending in two letters
  before \<open>.m3u\<close> yields a two-letter hint, also where the reconciler's pattern (and the
  spec's "leading two-letter prefix") finds none, as for \<open>news.m3u\<close>, hinted \<open>ws\<close>.
\<close>

theorem country_hint_unanchored:
  assumes "is_letter a" and "is_letter b"
  shows "length (countryCode_of (f @ [a, b] @ ''.m3u'')) = 2"
proof -
  have "hint_at (drop (length f) (f @ [a, b] @ ''.m3u''))" using assms by simp
  then obtain cc where "find_hint (f @ [a, b] @ ''.m3u'') = Some cc"
    using find_hint_drop by blast
  then show ?thesis by (simp add: countryCode_of_def find_hint_length)
qed

theorem country_hint_unanchored_witness:
  "length (countryCode_of (''ne'' @ [CHR ''w'', CHR ''s''] @ ''.m3u'')) = 2 \<and>
   countryCode_of ''news.m3u'' = ''ws'' \<and> default_broadcast_area (getFilename ''news.m3u'') = []"
  using country_hint_unanchored [of "CHR ''w''" "CHR ''s''" "''ne''"]
  by (simp add: ascii_simps countryCode_of_def is_line_terminator_def default_broadcast_area_def
      getFilename_def basename_def)

end
