(* ===== verification/Reconcile.thy ===== *)
theory Reconcile
  imports ChannelIndex Playlist "HOL-Library.Multiset"
begin

text \<open>
  The stream reconciler, \<open>loadStreams\<close> of generate.ts (lines 100--148): the stream
  rows are ordered by channel and URL, deduplicated by
  \<open>stream.channel || _.uniqueId()\<close>, and each survivor is enriched from its channel or
  given a default broadcast area from its file name.
\<close>

subsection \<open>Ordering: \<open>orderBy([channel, url], ['asc', 'asc'])\<close>\<close>

text \<open>
  lodash compares with \<open>compareAscending\<close>: strings by code units, and \<open>null\<close> or
  \<open>undefined\<close> after every string; ties keep the input order (the sort is stable).  The
  key \<open>(False, c)\<close> for a channel \<open>c\<close> and \<open>(True, [])\<close> for none gives that order
  under the lexicographic orders of pairs and lists.
\<close>

definition channel_sort_key :: "string option \<Rightarrow> bool \<times> string" where
  "channel_sort_key c = (case c of None \<Rightarrow> (True, []) | Some s \<Rightarrow> (False, s))"

definition stream_order_key :: "Stream \<Rightarrow> (bool \<times> string) \<times> string" where
  "stream_order_key s = (channel_sort_key (st_channel s), st_url s)"

definition orderBy_streams :: "Stream list \<Rightarrow> Stream list" where
  "orderBy_streams ss = sort_key stream_order_key ss"

subsection \<open>Deduplication: \<open>uniqBy(s => s.channel || _.uniqueId())\<close>\<close>

text \<open>
  \<open>uniqBy\<close> computes the iteratee once per element, in order, and keeps the first element
  of each computed key.  \<open>_.uniqueId()\<close> increments lodash's global counter and returns it
  as a decimal string; \<open>n\<close> is the counter's value before the call.
\<close>

definition truthy_channel :: "Stream \<Rightarrow> string option" where
  "truthy_channel s = (if truthy (st_channel s) then st_channel s else None)"

fun uniq_keys :: "nat \<Rightarrow> Stream list \<Rightarrow> string list" where
  "uniq_keys n [] = []"
| "uniq_keys n (s # ss) =
     (case truthy_channel s of
        Some c \<Rightarrow> c # uniq_keys n ss
      | None \<Rightarrow> string_of_nat (Suc n) # uniq_keys (Suc n) ss)"

fun uniq_keyed :: "'k list \<Rightarrow> ('k \<times> 'a) list \<Rightarrow> ('k \<times> 'a) list" where
  "uniq_keyed seen [] = []"
| "uniq_keyed seen ((k, x) # kxs) =
     (if k \<in> set seen then uniq_keyed seen kxs else (k, x) # uniq_keyed (k # seen) kxs)"

definition uniqBy_streams :: "nat \<Rightarrow> Stream list \<Rightarrow> Stream list" where
  "uniqBy_streams n ss = map snd (uniq_keyed [] (zip (uniq_keys n ss) ss))"

subsection \<open>Enrichment\<close>

text \<open>
  A matched channel replaces categories and languages (ids without a match dropped),
  broadcast area and NSFW flag, and the logo only if the channel has one; an unmatched
  stream gets the default area of its file name and keeps everything else.
\<close>

definition enrich_stream ::
  "(string \<rightharpoonup> Channel) \<Rightarrow> (string \<rightharpoonup> Category) \<Rightarrow> (string \<rightharpoonup> Language) \<Rightarrow> Stream \<Rightarrow> Stream" where
  "enrich_stream gCh gCat gLang s =
     (case channel_get gCh (st_channel s) of
        Some ch \<Rightarrow>
          s\<lparr>st_categories := lookup_all gCat (ch_categories ch),
            st_languages := lookup_all gLang (ch_languages ch),
            st_broadcastArea := ch_broadcastArea ch,
            st_isNSFW := ch_isNSFW ch,
            st_logo := (if truthy (ch_logo ch) then ch_logo ch else st_logo s)\<rparr>
      | None \<Rightarrow> s\<lparr>st_broadcastArea := default_broadcast_area (getFilename (st_filepath s))\<rparr>)"

definition loadStreams ::
  "nat \<Rightarrow> Channel list \<Rightarrow> Category list \<Rightarrow> Language list \<Rightarrow> Stream list \<Rightarrow> Stream list" where
  "loadStreams n channels categories languages docs =
     map (enrich_stream (groupedChannels channels) (groupedCategories categories)
            (groupedLanguages languages))
       (uniqBy_streams n (orderBy_streams docs))"

abbreviation enrich_with ::
  "Channel list \<Rightarrow> Category list \<Rightarrow> Language list \<Rightarrow> Stream \<Rightarrow> Stream" where
  "enrich_with chs cats langs \<equiv>
     enrich_stream (groupedChannels chs) (groupedCategories cats) (groupedLanguages langs)"

subsection \<open>Reference: the identity rule of the data model\<close>

text \<open>
  The spec's rule for deduplication without a counter: a stream with a channel is dropped
  when an earlier survivor has the same channel, and a channel-less stream is never dropped.
\<close>

fun dedup_ref :: "string list \<Rightarrow> Stream list \<Rightarrow> Stream list" where
  "dedup_ref seen [] = []"
| "dedup_ref seen (s # ss) =
     (case truthy_channel s of
        None \<Rightarrow> s # dedup_ref seen ss
      | Some c \<Rightarrow> if c \<in> set seen then dedup_ref seen ss else s # dedup_ref (c # seen) ss)"

subsection \<open>Reference: the order of the spec\<close>

text \<open>
  The order of the spec (4.4, step 1), written as a comparison of two streams: by channel
  identifier ascending, a stream without one after every stream with one, then by URL
  ascending.  Strings compare by code units, lexicographically.
\<close>

definition stream_le :: "Stream \<Rightarrow> Stream \<Rightarrow> bool" where
  "stream_le a b \<longleftrightarrow>
     (case (st_channel a, st_channel b) of
        (Some x, Some y) \<Rightarrow> x < y \<or> (x = y \<and> st_url a \<le> st_url b)
      | (Some x, None) \<Rightarrow> True
      | (None, Some y) \<Rightarrow> False
      | (None, None) \<Rightarrow> st_url a \<le> st_url b)"

subsection \<open>Deduplication lemmas\<close>

lemma uniq_keyed_subset: "set (uniq_keyed seen kxs) \<subseteq> set kxs"
  by (induction seen kxs rule: uniq_keyed.induct) auto

lemma uniq_keyed_keys: "fst ` set (uniq_keyed seen kxs) \<inter> set seen = {}"
  by (induction seen kxs rule: uniq_keyed.induct) auto

lemma uniq_keyed_filter_key:
  "filter (\<lambda>p. fst p = k) (uniq_keyed seen kxs) =
     (if k \<in> set seen then [] else take 1 (filter (\<lambda>p. fst p = k) kxs))"
proof (induction seen kxs rule: uniq_keyed.induct)
  case (1 seen)
  then show ?case by simp
next
  case (2 seen k' x kxs)
  show ?case
  proof (cases "k' \<in> set seen")
    case True
    with "2.IH"(1) show ?thesis by auto
  next
    case False
    have none: "filter (\<lambda>p. fst p = k') (uniq_keyed (k' # seen) kxs) = []"
      using uniq_keyed_keys [of "k' # seen" kxs] by (auto simp: filter_empty_conv)
    with False "2.IH"(2) show ?thesis by auto
  qed
qed

text \<open>Entries whose keys occur once and are not yet seen all survive.\<close>

lemma uniq_keyed_keeps:
  assumes "distinct (map fst (filter (P \<circ> snd) kxs))"
    and "fst ` {p \<in> set kxs. P (snd p)} \<inter> (set seen \<union> fst ` {p \<in> set kxs. \<not> P (snd p)}) = {}"
  shows "filter (P \<circ> snd) (uniq_keyed seen kxs) = filter (P \<circ> snd) kxs"
  using assms
proof (induction seen kxs rule: uniq_keyed.induct)
  case (1 seen)
  then show ?case by simp
next
  case (2 seen k x kxs)
  show ?case
  proof (cases "P x")
    case True
    then have "k \<in> fst ` {p \<in> set ((k, x) # kxs). P (snd p)}" by force
    with "2.prems"(2) have "k \<notin> set seen" by blast
    with True "2.prems" "2.IH"(2) show ?thesis by (auto simp: image_iff)
  next
    case False
    have rest: "fst ` {p \<in> set kxs. P (snd p)} \<inter> (set seen \<union> fst ` {p \<in> set kxs. \<not> P (snd p)}) = {}"
      using "2.prems"(2) by auto
    have "k \<in> fst ` {p \<in> set ((k, x) # kxs). \<not> P (snd p)}" using False by force
    with "2.prems"(2) have "k \<notin> fst ` {p \<in> set kxs. P (snd p)}" by auto
    with rest have "fst ` {p \<in> set kxs. P (snd p)} \<inter> (set (k # seen) \<union> fst ` {p \<in> set kxs. \<not> P (snd p)}) = {}"
      by auto
    with False rest "2.prems"(1) "2.IH" show ?thesis by auto
  qed
qed

lemma length_uniq_keys [simp]: "length (uniq_keys n ss) = length ss"
  by (induction n ss rule: uniq_keys.induct) (auto split: option.splits)

lemma truthy_channel_Some: "truthy_channel s = Some c \<Longrightarrow> st_channel s = Some c \<and> c \<noteq> []"
  by (auto simp: truthy_channel_def truthy_def split: if_splits option.splits)

lemma truthy_channel_SomeI: "st_channel s = Some c \<Longrightarrow> c \<noteq> [] \<Longrightarrow> truthy_channel s = Some c"
  by (simp add: truthy_channel_def)

text \<open>What \<open>uniq_keys\<close> computes for each row: its channel, or a fresh decimal id.\<close>

lemma uniq_keys_pairs:
  "p \<in> set (zip (uniq_keys n ss) ss) \<Longrightarrow>
   (case truthy_channel (snd p) of
      Some c \<Rightarrow> fst p = c
    | None \<Rightarrow> (\<exists>m > n. fst p = string_of_nat m))"
proof (induction n ss rule: uniq_keys.induct)
  case (1 n)
  then show ?case by simp
next
  case (2 n s ss)
  then show ?case by (force split: option.splits dest: Suc_lessD)
qed

lemma uniq_keys_fresh_distinct:
  "distinct (map fst (filter (\<lambda>p. truthy_channel (snd p) = None) (zip (uniq_keys n ss) ss)))"
proof (induction n ss rule: uniq_keys.induct)
  case (1 n)
  then show ?case by simp
next
  case (2 n s ss)
  show ?case
  proof (cases "truthy_channel s")
    case None
    have "string_of_nat (Suc n) \<notin> fst ` set (filter (\<lambda>p. truthy_channel (snd p) = None)
            (zip (uniq_keys (Suc n) ss) ss))"
      using uniq_keys_pairs [of _ "Suc n" ss] by (force simp: string_of_nat_inj)
    with None "2.IH"(1) show ?thesis by simp
  next
    case (Some c)
    with "2.IH"(2) show ?thesis by simp
  qed
qed

lemma not_digits_key:
  assumes "\<not> (\<forall>ch \<in> set c. is_digit ch)" and "p \<in> set (zip (uniq_keys n ss) ss)"
  shows "fst p = c \<longleftrightarrow> st_channel (snd p) = Some c"
proof -
  have "c \<noteq> []" using assms(1) by auto
  moreover have "c \<notin> range string_of_nat" using assms(1) string_of_nat_digits by auto
  ultimately show ?thesis using uniq_keys_pairs [OF assms(2)]
    by (auto split: option.splits dest: truthy_channel_Some
        simp: truthy_channel_SomeI string_of_nat_inj)
qed

lemma filter_map_snd: "filter P (map snd xs) = map snd (filter (P \<circ> snd) xs)"
  by (induction xs) auto

lemma map_snd_zip_uniq_keys [simp]: "map snd (zip (uniq_keys n ss) ss) = ss"
  by simp

lemma uniqBy_one_per_channel:
  assumes "\<not> (\<forall>ch \<in> set c. is_digit ch)"
  shows "filter (\<lambda>s. st_channel s = Some c) (uniqBy_streams n ss) =
           take 1 (filter (\<lambda>s. st_channel s = Some c) ss)"
proof -
  let ?kxs = "zip (uniq_keys n ss) ss"
  let ?P = "\<lambda>s. st_channel s = Some c"
  have key: "\<And>p. p \<in> set ?kxs \<Longrightarrow> fst p = c \<longleftrightarrow> ?P (snd p)"
    using not_digits_key [OF assms] by blast
  have eq: "\<And>xs. set xs \<subseteq> set ?kxs \<Longrightarrow> filter (?P \<circ> snd) xs = filter (\<lambda>p. fst p = c) xs"
    by (rule filter_cong) (use key in auto)
  have "filter ?P (uniqBy_streams n ss) = map snd (filter (\<lambda>p. fst p = c) (uniq_keyed [] ?kxs))"
    by (simp add: uniqBy_streams_def filter_map_snd eq uniq_keyed_subset)
  also have "\<dots> = map snd (take 1 (filter (\<lambda>p. fst p = c) ?kxs))"
    by (simp add: uniq_keyed_filter_key)
  also have "\<dots> = map snd (take 1 (filter (?P \<circ> snd) ?kxs))"
    by (simp add: eq)
  also have "\<dots> = take 1 (filter ?P (map snd ?kxs))"
    by (simp only: filter_map_snd take_map)
  also have "\<dots> = take 1 (filter ?P ss)"
    by simp
  finally show ?thesis .
qed

subsection \<open>Enrichment lemmas\<close>

lemma enrich_stream_frame:
  "st_channel (enrich_stream gCh gCat gLang s) = st_channel s \<and>
   st_url (enrich_stream gCh gCat gLang s) = st_url s \<and>
   st_name (enrich_stream gCh gCat gLang s) = st_name s \<and>
   st_line (enrich_stream gCh gCat gLang s) = st_line s \<and>
   st_filepath (enrich_stream gCh gCat gLang s) = st_filepath s"
  by (simp add: enrich_stream_def split: option.splits)

lemma filter_enrich:
  assumes "\<And>s. P (enrich_stream gCh gCat gLang s) = P s"
  shows "filter P (map (enrich_stream gCh gCat gLang) xs) = map (enrich_stream gCh gCat gLang) (filter P xs)"
  using assms by (simp add: filter_map comp_def)

lemma sorted_hd_min:
  "sorted (map f (x # xs)) \<Longrightarrow> y \<in> set (x # xs) \<Longrightarrow> f x \<le> f y"
  by auto

lemma uniq_keyed_sorted:
  "sorted (map (f \<circ> snd) kxs) \<Longrightarrow> sorted (map (f \<circ> snd) (uniq_keyed seen kxs))"
proof (induction seen kxs rule: uniq_keyed.induct)
  case (1 seen)
  then show ?case by simp
next
  case (2 seen k x kxs)
  then show ?case using uniq_keyed_subset [of "k # seen" kxs] by auto
qed

lemma dedup_ref_set: "set a = set b \<Longrightarrow> dedup_ref a ss = dedup_ref b ss"
proof (induction ss arbitrary: a b)
  case Nil
  then show ?case by simp
next
  case (Cons s ss)
  have ab: "dedup_ref a ss = dedup_ref b ss" by (rule Cons.IH) (rule Cons.prems)
  have "dedup_ref (c # a) ss = dedup_ref (c # b) ss" for c by (rule Cons.IH) (simp add: Cons.prems)
  with ab Cons.prems show ?case by (simp split: option.splits)
qed

lemma dedup_ref_numeral:
  "\<forall>s \<in> set ss. \<forall>c. truthy_channel s = Some c \<longrightarrow> c \<notin> range string_of_nat \<Longrightarrow>
   dedup_ref (string_of_nat j # seen) ss = dedup_ref seen ss"
proof (induction ss arbitrary: seen)
  case Nil
  then show ?case by simp
next
  case (Cons s ss)
  show ?case
  proof (cases "truthy_channel s")
    case None
    with Cons show ?thesis by simp
  next
    case (Some c)
    then have c: "c \<noteq> string_of_nat j" using Cons.prems by auto
    have "dedup_ref (c # string_of_nat j # seen) ss = dedup_ref (string_of_nat j # c # seen) ss"
      by (rule dedup_ref_set) auto
    with Some c Cons show ?thesis by simp
  qed
qed

lemma uniq_keyed_ref:
  assumes "\<forall>j > n. string_of_nat j \<notin> set seen"
    and "\<forall>s \<in> set ss. \<forall>c. truthy_channel s = Some c \<longrightarrow> c \<notin> range string_of_nat"
  shows "map snd (uniq_keyed seen (zip (uniq_keys n ss) ss)) = dedup_ref seen ss"
  using assms
proof (induction ss arbitrary: n seen)
  case Nil
  then show ?case by simp
next
  case (Cons s ss)
  show ?case
  proof (cases "truthy_channel s")
    case None
    have fresh: "string_of_nat (Suc n) \<notin> set seen" using Cons.prems(1) by simp
    have "\<forall>j > Suc n. string_of_nat j \<notin> set (string_of_nat (Suc n) # seen)"
      using Cons.prems(1) by (simp add: string_of_nat_inj)
    with Cons.IH [of "Suc n" "string_of_nat (Suc n) # seen"] Cons.prems(2) None fresh show ?thesis
      by (simp add: dedup_ref_numeral)
  next
    case (Some c)
    have "\<forall>j > n. string_of_nat j \<notin> set (c # seen)"
      using Cons.prems Some by auto
    show ?thesis
    proof (cases "c \<in> set seen")
      case True
      with Cons.IH [of n seen] Cons.prems Some show ?thesis by simp
    next
      case False
      with Cons.IH [of n "c # seen"] \<open>\<forall>j > n. string_of_nat j \<notin> set (c # seen)\<close> Cons.prems(2) Some
      show ?thesis by simp
    qed
  qed
qed

lemma loadStreams_sorted_key:
  "sorted (map stream_order_key (loadStreams n channels categories languages docs))"
proof -
  let ?ss = "orderBy_streams docs"
  have "map (stream_order_key \<circ> snd) (zip (uniq_keys n ?ss) ?ss) = map stream_order_key ?ss"
    by (metis map_map map_snd_zip_uniq_keys)
  then have "sorted (map (stream_order_key \<circ> snd) (zip (uniq_keys n ?ss) ?ss))"
    by (simp add: orderBy_streams_def)
  then have "sorted (map (stream_order_key \<circ> snd) (uniq_keyed [] (zip (uniq_keys n ?ss) ?ss)))"
    by (rule uniq_keyed_sorted)
  moreover have "stream_order_key \<circ> enrich_with channels categories languages = stream_order_key"
    by (rule ext) (simp add: stream_order_key_def enrich_stream_frame)
  ultimately show ?thesis
    by (simp add: loadStreams_def uniqBy_streams_def comp_assoc [symmetric])
qed

subsection \<open>Properties\<close>

text \<open>
  (C13) Deduplication keeps exactly one stream per channel id, and it is the stream with the
  smallest URL among the rows with that id (the first of them in the sorted order), for every
  channel id that is not a decimal numeral (real ids such as \<open>CNN.us\<close> never are).
\<close>

theorem loadStreams_dedup:
  assumes "\<not> (\<forall>ch \<in> set c. is_digit ch)" and "t \<in> set docs" and "st_channel t = Some c"
  shows "\<exists>s. filter (\<lambda>x. st_channel x = Some c) (loadStreams n chs cats langs docs) =
               [enrich_with chs cats langs s] \<and>
             s \<in> set docs \<and> st_channel s = Some c \<and>
             (\<forall>u \<in> set docs. st_channel u = Some c \<longrightarrow> st_url s \<le> st_url u)"
proof -
  let ?P = "\<lambda>x. st_channel x = Some c"
  have "filter ?P (orderBy_streams docs) = sort_key stream_order_key (filter ?P docs)"
    by (simp add: orderBy_streams_def filter_sort)
  moreover have "t \<in> set (sort_key stream_order_key (filter ?P docs))" using assms(2,3) by simp
  ultimately obtain s rest where sr: "filter ?P (orderBy_streams docs) = s # rest"
    and srt: "sorted (map stream_order_key (s # rest))"
    and st: "set (s # rest) = set (filter ?P docs)"
    by (metis empty_iff list.exhaust list.set(1) set_sort sorted_sort_key)
  have out: "filter ?P (loadStreams n chs cats langs docs) = [enrich_with chs cats langs s]"
    using uniqBy_one_per_channel [OF assms(1), of n "orderBy_streams docs"] sr
    by (simp add: loadStreams_def filter_enrich enrich_stream_frame)
  have s: "s \<in> set docs" "?P s" using st by auto
  have "\<forall>u \<in> set docs. ?P u \<longrightarrow> st_url s \<le> st_url u"
  proof (intro ballI impI)
    fix u assume "u \<in> set docs" "?P u"
    with st have "u \<in> set (s # rest)" by simp
    with srt have "stream_order_key s \<le> stream_order_key u" by (rule sorted_hd_min)
    with s(2) \<open>?P u\<close> show "st_url s \<le> st_url u" by (simp add: stream_order_key_def)
  qed
  with out s show ?thesis by blast
qed

theorem loadStreams_dedup_witness:
  "map st_url (filter (\<lambda>x. st_channel x = Some ''A.us'')
     (loadStreams 0 [] [] [] [(Stream.make (Some ''A.us'') ''A'' ''http://b'' None [] [] [] False 3 ''streams/us.m3u''), (Stream.make (Some ''A.us'') ''A'' ''http://a'' None [] [] [] False 7 ''streams/us.m3u'')])) = [''http://a'']"
proof -
  obtain s where "filter (\<lambda>x. st_channel x = Some ''A.us'')
      (loadStreams 0 [] [] [] [(Stream.make (Some ''A.us'') ''A'' ''http://b'' None [] [] [] False 3 ''streams/us.m3u''), (Stream.make (Some ''A.us'') ''A'' ''http://a'' None [] [] [] False 7 ''streams/us.m3u'')]) = [enrich_with [] [] [] s]"
    and "s \<in> set [(Stream.make (Some ''A.us'') ''A'' ''http://b'' None [] [] [] False 3 ''streams/us.m3u''), (Stream.make (Some ''A.us'') ''A'' ''http://a'' None [] [] [] False 7 ''streams/us.m3u'')]"
    and "\<forall>u \<in> set [(Stream.make (Some ''A.us'') ''A'' ''http://b'' None [] [] [] False 3 ''streams/us.m3u''), (Stream.make (Some ''A.us'') ''A'' ''http://a'' None [] [] [] False 7 ''streams/us.m3u'')]. st_channel u = Some ''A.us'' \<longrightarrow> st_url s \<le> st_url u"
    using loadStreams_dedup [of "''A.us''" "(Stream.make (Some ''A.us'') ''A'' ''http://b'' None [] [] [] False 3 ''streams/us.m3u'')" "[(Stream.make (Some ''A.us'') ''A'' ''http://b'' None [] [] [] False 3 ''streams/us.m3u''), (Stream.make (Some ''A.us'') ''A'' ''http://a'' None [] [] [] False 7 ''streams/us.m3u'')]" 0 "[]" "[]" "[]"]
    by (auto simp: ascii_simps Stream.make_def)
  then show ?thesis by (auto simp: enrich_stream_frame Stream.make_def)
qed

text \<open>
  Channel-less rows are never deduplicated against each other: every row whose channel
  is absent or empty survives \<open>uniqBy\<close>, provided no channel id is a decimal numeral.
\<close>

theorem uniqBy_keeps_channelless:
  assumes "\<forall>s \<in> set ss. \<forall>c. truthy_channel s = Some c \<longrightarrow> \<not> (\<forall>ch \<in> set c. is_digit ch)"
  shows "filter (\<lambda>s. truthy_channel s = None) (uniqBy_streams n ss) =
           filter (\<lambda>s. truthy_channel s = None) ss"
proof -
  let ?kxs = "zip (uniq_keys n ss) ss"
  let ?P = "\<lambda>s. truthy_channel s = None"
  have d: "distinct (map fst (filter (?P \<circ> snd) ?kxs))"
    using uniq_keys_fresh_distinct [of n ss] by (simp add: comp_def)
  have "fst ` {p \<in> set ?kxs. ?P (snd p)} \<inter> fst ` {p \<in> set ?kxs. \<not> ?P (snd p)} = {}"
  proof (rule ccontr)
    assume "\<not> ?thesis"
    then obtain p q where p: "p \<in> set ?kxs" "?P (snd p)" and q: "q \<in> set ?kxs" "\<not> ?P (snd q)"
      and pq: "fst p = fst q" by blast
    from p obtain m where "fst p = string_of_nat m" using uniq_keys_pairs [OF p(1)] by auto
    moreover from q obtain c where "truthy_channel (snd q) = Some c" and "fst q = c"
      using uniq_keys_pairs [OF q(1)] by (auto split: option.splits)
    moreover have "snd q \<in> set ss" using q(1) by (metis set_zip_rightD surjective_pairing)
    ultimately show False using assms pq string_of_nat_digits by metis
  qed
  then have "filter (?P \<circ> snd) (uniq_keyed [] ?kxs) = filter (?P \<circ> snd) ?kxs"
    using d by (intro uniq_keyed_keeps) auto
  then show ?thesis
    by (simp add: uniqBy_streams_def filter_map_snd) (metis filter_map_snd map_snd_zip_uniq_keys)
qed

theorem uniqBy_keeps_channelless_witness:
  "filter (\<lambda>s. truthy_channel s = None) (uniqBy_streams 0 [(Stream.make None ''X'' ''http://x'' None [] [] [] False 1 ''streams/fr_news.m3u''), (Stream.make (Some ''A.us'') ''A'' ''http://b'' None [] [] [] False 3 ''streams/us.m3u''), (Stream.make (Some []) ''Y'' ''http://y'' None [] [] [] False 2 ''streams/fr_news.m3u'')]) =
   filter (\<lambda>s. truthy_channel s = None) [(Stream.make None ''X'' ''http://x'' None [] [] [] False 1 ''streams/fr_news.m3u''), (Stream.make (Some ''A.us'') ''A'' ''http://b'' None [] [] [] False 3 ''streams/us.m3u''), (Stream.make (Some []) ''Y'' ''http://y'' None [] [] [] False 2 ''streams/fr_news.m3u'')]"
  by (rule uniqBy_keeps_channelless) (auto simp: truthy_channel_def ascii_simps Stream.make_def)

text \<open>
  (C16) \<open>_.uniqueId()\<close> returns the decimal strings "1", "2", ...: a channel-less row
  whose synthetic id equals a real channel id is removed as that channel's duplicate, which
  the spec's "never collides with a real channel" rules out.
\<close>

theorem uniqueId_collision:
  assumes "st_channel a = Some (string_of_nat (Suc n))" and "st_channel b = None"
  shows "uniqBy_streams n (orderBy_streams [b, a]) = [a]"
proof -
  have "orderBy_streams [b, a] = [a, b]"
    using assms by (simp add: orderBy_streams_def stream_order_key_def channel_sort_key_def)
  with assms show ?thesis
    by (simp add: uniqBy_streams_def truthy_channel_def)
qed

theorem uniqueId_collision_witness:
  "uniqBy_streams 0 (orderBy_streams [(Stream.make None ''X'' ''http://x'' None [] [] [] False 1 ''streams/fr_news.m3u''), (Stream.make (Some ''1'') ''One'' ''http://1'' None [] [] [] False 1 ''streams/a.m3u'')]) = [(Stream.make (Some ''1'') ''One'' ''http://1'' None [] [] [] False 1 ''streams/a.m3u'')]"
  by (rule uniqueId_collision) (simp_all add: string_of_nat.simps digit_char_def Stream.make_def)

text \<open>
  (C17) A stream whose channel is in the index gets the channel's categories and languages
  (ids with no match dropped, order kept), its broadcast area and NSFW flag, and its logo
  only when the channel has one.
\<close>

theorem enrich_matched:
  assumes "channel_get (groupedChannels chs) (st_channel s) = Some ch"
  shows "map cat_id (st_categories (enrich_with chs cats langs s)) =
           filter (\<lambda>i. i \<in> cat_id ` set cats) (ch_categories ch) \<and>
         map lang_code (st_languages (enrich_with chs cats langs s)) =
           filter (\<lambda>i. i \<in> lang_code ` set langs) (ch_languages ch) \<and>
         st_broadcastArea (enrich_with chs cats langs s) = ch_broadcastArea ch \<and>
         st_isNSFW (enrich_with chs cats langs s) = ch_isNSFW ch \<and>
         st_logo (enrich_with chs cats langs s) = (if truthy (ch_logo ch) then ch_logo ch else st_logo s)"
  using assms by (simp add: enrich_stream_def groupedCategories_def groupedLanguages_def
      map_key_lookup_all)

theorem enrich_matched_witness:
  "map cat_id (st_categories (enrich_with [\<lparr>ch_id = ''A.us'', ch_categories = [''news'', ''gone''], ch_languages = [''eng''], ch_broadcastArea = [''c/US''], ch_isNSFW = False, ch_logo = Some ''logo.png''\<rparr>] [\<lparr>cat_id = ''news'', cat_name = ''News''\<rparr>]
       [\<lparr>lang_code = ''eng'', lang_name = ''English''\<rparr>] (Stream.make (Some ''A.us'') ''A'' ''http://b'' None [] [] [] False 3 ''streams/us.m3u''))) = [''news''] \<and>
   st_logo (enrich_with [\<lparr>ch_id = ''A.us'', ch_categories = [''news'', ''gone''], ch_languages = [''eng''], ch_broadcastArea = [''c/US''], ch_isNSFW = False, ch_logo = Some ''logo.png''\<rparr>] [\<lparr>cat_id = ''news'', cat_name = ''News''\<rparr>]
       [\<lparr>lang_code = ''eng'', lang_name = ''English''\<rparr>] (Stream.make (Some ''A.us'') ''A'' ''http://b'' None [] [] [] False 3 ''streams/us.m3u'')) = Some ''logo.png''"
proof -
  have "channel_get (groupedChannels [\<lparr>ch_id = ''A.us'', ch_categories = [''news'', ''gone''], ch_languages = [''eng''], ch_broadcastArea = [''c/US''], ch_isNSFW = False, ch_logo = Some ''logo.png''\<rparr>]) (st_channel (Stream.make (Some ''A.us'') ''A'' ''http://b'' None [] [] [] False 3 ''streams/us.m3u'')) = Some (\<lparr>ch_id = ''A.us'', ch_categories = [''news'', ''gone''], ch_languages = [''eng''], ch_broadcastArea = [''c/US''], ch_isNSFW = False, ch_logo = Some ''logo.png''\<rparr>)"
    by (simp add: channel_get_def groupedChannels_def key_by_def Stream.make_def)
  from enrich_matched [OF this, of "[\<lparr>cat_id = ''news'', cat_name = ''News''\<rparr>]"
      "[\<lparr>lang_code = ''eng'', lang_name = ''English''\<rparr>]"]
  show ?thesis by (simp add: Stream.make_def truthy_def)
qed

text \<open>
  (C18) A stream whose channel is not in the index keeps every field but the broadcast area,
  which becomes the default area of its file name.
\<close>

theorem enrich_unmatched:
  assumes "channel_get (groupedChannels chs) (st_channel s) = None"
  shows "enrich_with chs cats langs s =
           s\<lparr>st_broadcastArea := default_broadcast_area (getFilename (st_filepath s))\<rparr>"
  using assms by (simp add: enrich_stream_def)

theorem enrich_unmatched_witness:
  "st_broadcastArea (enrich_with [] [] []
     (Stream.make None ''X'' ''http://x'' None [] [] [] False 1 ''streams/fr_news.m3u'')) = [''c/FR'']"
proof -
  let ?s = "Stream.make None ''X'' ''http://x'' None [] [] [] False 1 ''streams/fr_news.m3u''"
  have "enrich_with [] [] [] ?s =
      ?s\<lparr>st_broadcastArea := default_broadcast_area (getFilename (st_filepath ?s))\<rparr>"
    by (rule enrich_unmatched) (simp add: channel_get_def Stream.make_def)
  then show ?thesis
    by (simp add: Stream.make_def default_broadcast_area_def getFilename_def basename_def
        ascii_simps toUpperCase_def)
qed

text \<open>
  (C15) The counter-based \<open>uniqBy\<close> implements the spec's identity rule (a channel, or a
  fresh token for a channel-less stream) whenever no channel id is a decimal numeral.
\<close>

theorem uniqBy_streams_ref:
  assumes "\<forall>s \<in> set ss. \<forall>c. truthy_channel s = Some c \<longrightarrow> \<not> (\<forall>ch \<in> set c. is_digit ch)"
  shows "uniqBy_streams n ss = dedup_ref [] ss"
proof -
  have "\<forall>s \<in> set ss. \<forall>c. truthy_channel s = Some c \<longrightarrow> c \<notin> range string_of_nat"
    using assms string_of_nat_digits by (metis rangeE)
  then show ?thesis by (simp add: uniqBy_streams_def uniq_keyed_ref)
qed

theorem uniqBy_streams_ref_witness:
  "uniqBy_streams 3 [Stream.make (Some ''A.us'') ''A'' ''http://b'' None [] [] [] False 1 ''streams/us.m3u'', Stream.make None ''X'' ''http://x'' None [] [] [] False 2 ''streams/us.m3u'', Stream.make (Some ''A.us'') ''A'' ''http://a'' None [] [] [] False 3 ''streams/us.m3u''] =
   [Stream.make (Some ''A.us'') ''A'' ''http://b'' None [] [] [] False 1 ''streams/us.m3u'',
    Stream.make None ''X'' ''http://x'' None [] [] [] False 2 ''streams/us.m3u'']"
proof -
  have "uniqBy_streams 3 [Stream.make (Some ''A.us'') ''A'' ''http://b'' None [] [] [] False 1 ''streams/us.m3u'', Stream.make None ''X'' ''http://x'' None [] [] [] False 2 ''streams/us.m3u'', Stream.make (Some ''A.us'') ''A'' ''http://a'' None [] [] [] False 3 ''streams/us.m3u''] = dedup_ref [] [Stream.make (Some ''A.us'') ''A'' ''http://b'' None [] [] [] False 1 ''streams/us.m3u'', Stream.make None ''X'' ''http://x'' None [] [] [] False 2 ''streams/us.m3u'', Stream.make (Some ''A.us'') ''A'' ''http://a'' None [] [] [] False 3 ''streams/us.m3u'']"
    by (rule uniqBy_streams_ref) (auto simp: truthy_channel_def Stream.make_def ascii_simps)
  then show ?thesis by (simp add: truthy_channel_def Stream.make_def)
qed


text \<open>
  (C14) The reconciled list is in the spec's order: for any two streams of the result, the
  earlier one has the smaller channel identifier, or no identifier comes first when the
  later one has none, or they have the same identifier (or none) and the earlier URL is not
  larger.
\<close>

theorem loadStreams_sorted:
  "sorted_wrt stream_le (loadStreams n channels categories languages docs)"
proof -
  have key: "stream_order_key a \<le> stream_order_key b \<Longrightarrow> stream_le a b" for a b :: Stream
    by (auto simp: stream_order_key_def channel_sort_key_def stream_le_def split: option.splits)
  have "sorted_wrt (\<lambda>a b. stream_order_key a \<le> stream_order_key b)
      (loadStreams n channels categories languages docs)"
    using loadStreams_sorted_key [of n channels categories languages docs]
    by (simp add: sorted_wrt_map)
  then show ?thesis by (rule sorted_wrt_mono_rel [rotated]) (rule key)
qed

end
