(* ===== verification/Generate.thy ===== *)
theory Generate
  imports Reconcile
begin

text \<open>
  \<open>main\<close> of generate.ts (lines 21--98): load the reference data, reconcile the streams
  with \<open>loadStreams\<close>, open the generators' log stream and run the ten playlist generators
  of src/generators one after the other, each \<open>await\<close>ed.  The generators themselves are
  not part of the sources: a run is an event of the trace, carrying the generator and the
  options object it is constructed with, and whether its \<open>generate()\<close> promise resolves is
  the parameter \<open>ok\<close>.  A rejected promise propagates out of \<open>main()\<close>, which nobody
  awaits (line 98): the remaining generators never start and the process ends with an
  unhandled rejection, a failure.  Countries, regions and subdivisions are only passed
  through, so their types are parameters.
\<close>

subsection \<open>Data\<close>

datatype generator =
    CategoriesGenerator | CountriesGenerator | LanguagesGenerator | RegionsGenerator
  | IndexGenerator | IndexNsfwGenerator | IndexCategoryGenerator | IndexCountryGenerator
  | IndexLanguageGenerator | IndexRegionGenerator

text \<open>The collections read from DATA_DIR (lines 24--42).\<close>

record ('co, 're, 'su) RefData =
  rd_channels :: "Channel list"
  rd_categories :: "Category list"
  rd_countries :: "'co list"
  rd_languages :: "Language list"
  rd_regions :: "'re list"
  rd_subdivisions :: "'su list"

text \<open>
  The options object of a generator's constructor: a key missing from the object literal is
  \<open>None\<close>; every generator gets the reconciled \<open>streams\<close> and the generators' logger,
  named by the log file it writes to.
\<close>

record ('co, 're, 'su) GenOptions =
  go_categories :: "Category list option"
  go_countries :: "'co list option"
  go_regions :: "'re list option"
  go_subdivisions :: "'su list option"
  go_streams :: "Stream list"
  go_logger :: string

datatype ('co, 're, 'su) gen_event =
    Info string
  | CreateLogStream string
  | Generate generator "('co, 're, 'su) GenOptions"

subsection \<open>The script\<close>

text \<open>Lines 44--95: the events of \<open>main\<close> in program order.\<close>

definition generate_main ::
  "nat \<Rightarrow> ('co, 're, 'su) RefData \<Rightarrow> Stream list \<Rightarrow> ('co, 're, 'su) gen_event list" where
  "generate_main n rd docs =
     (let streams = loadStreams n (rd_channels rd) (rd_categories rd) (rd_languages rd) docs;
          log = ''generators.log'';
          opts = \<lparr>go_categories = None, go_countries = None, go_regions = None,
                  go_subdivisions = None, go_streams = streams, go_logger = log\<rparr>
      in [CreateLogStream log,
          Info ''generating categories/...'',
          Generate CategoriesGenerator (opts\<lparr>go_categories := Some (rd_categories rd)\<rparr>),
          Info ''generating countries/...'',
          Generate CountriesGenerator
            (opts\<lparr>go_countries := Some (rd_countries rd), go_regions := Some (rd_regions rd),
                  go_subdivisions := Some (rd_subdivisions rd)\<rparr>),
          Info ''generating languages/...'',
          Generate LanguagesGenerator opts,
          Info ''generating regions/...'',
          Generate RegionsGenerator
            (opts\<lparr>go_regions := Some (rd_regions rd), go_subdivisions := Some (rd_subdivisions rd)\<rparr>),
          Info ''generating index.m3u...'',
          Generate IndexGenerator opts,
          Info ''generating index.nsfw.m3u...'',
          Generate IndexNsfwGenerator opts,
          Info ''generating index.category.m3u...'',
          Generate IndexCategoryGenerator opts,
          Info ''generating index.country.m3u...'',
          Generate IndexCountryGenerator
            (opts\<lparr>go_countries := Some (rd_countries rd), go_regions := Some (rd_regions rd),
                  go_subdivisions := Some (rd_subdivisions rd)\<rparr>),
          Info ''generating index.language.m3u...'',
          Generate IndexLanguageGenerator opts,
          Info ''generating index.region.m3u...'',
          Generate IndexRegionGenerator (opts\<lparr>go_regions := Some (rd_regions rd)\<rparr>)])"

text \<open>An event completes unless it is a generator whose promise rejects.\<close>

definition event_ok ::
  "(generator \<Rightarrow> ('co, 're, 'su) GenOptions \<Rightarrow> bool) \<Rightarrow> ('co, 're, 'su) gen_event \<Rightarrow> bool" where
  "event_ok ok e = (case e of Generate g opts \<Rightarrow> ok g opts | _ \<Rightarrow> True)"

text \<open>
  Sequential \<open>await\<close>s: the events performed and whether \<open>main()\<close> resolves.  A rejection
  ends the run after the generator that threw.
\<close>

fun run_events ::
  "(generator \<Rightarrow> ('co, 're, 'su) GenOptions \<Rightarrow> bool) \<Rightarrow> ('co, 're, 'su) gen_event list \<Rightarrow>
   ('co, 're, 'su) gen_event list \<times> bool" where
  "run_events ok [] = ([], True)"
| "run_events ok (e # es) =
     (if event_ok ok e then (let (d, r) = run_events ok es in (e # d, r)) else ([e], False))"

text \<open>The generators started by a list of events, in order.\<close>

definition generated :: "('co, 're, 'su) gen_event list \<Rightarrow> generator list" where
  "generated es = List.map_filter (\<lambda>e. case e of Generate g opts \<Rightarrow> Some g | _ \<Rightarrow> None) es"

subsection \<open>Lemmas\<close>

lemma run_events_all_ok:
  "\<forall>e \<in> set es. event_ok ok e \<Longrightarrow> run_events ok es = (es, True)"
  by (induction es) auto

lemma run_events_stop:
  "\<forall>e \<in> set pre. event_ok ok e \<Longrightarrow> \<not> event_ok ok e \<Longrightarrow>
   run_events ok (pre @ e # post) = (pre @ [e], False)"
  by (induction pre) auto

lemma generate_main_Generate:
  "Generate g opts \<in> set (generate_main n rd docs) \<Longrightarrow>
   go_streams opts = loadStreams n (rd_channels rd) (rd_categories rd) (rd_languages rd) docs \<and>
   go_logger opts = ''generators.log''"
  by (auto simp: generate_main_def Let_def)

lemma loadStreams_one_per_channel:
  assumes "\<not> (\<forall>ch \<in> set c. is_digit ch)"
  shows "length (filter (\<lambda>s. st_channel s = Some c) (loadStreams n chs cats langs docs)) \<le> 1"
proof -
  have "filter (\<lambda>s. st_channel s = Some c) (loadStreams n chs cats langs docs) =
        map (enrich_with chs cats langs)
          (take 1 (filter (\<lambda>s. st_channel s = Some c) (orderBy_streams docs)))"
    using uniqBy_one_per_channel [OF assms, of n "orderBy_streams docs"]
    by (simp add: loadStreams_def filter_enrich enrich_stream_frame)
  then show ?thesis by simp
qed

subsection \<open>Properties\<close>

text \<open>
  (C19) No generator receives two streams of the same channel: every generator is given the
  one reconciled list, which holds at most one stream per channel id (ids that are not
  decimal numerals).
\<close>

theorem generators_no_duplicate_channel:
  assumes "Generate g opts \<in> set (generate_main n rd docs)" and "\<not> (\<forall>ch \<in> set c. is_digit ch)"
  shows "length (filter (\<lambda>s. st_channel s = Some c) (go_streams opts)) \<le> 1"
  using generate_main_Generate [OF assms(1)] loadStreams_one_per_channel [OF assms(2)] by simp

theorem generators_no_duplicate_channel_witness:
  "length (filter (\<lambda>s. st_channel s = Some ''A.us'') (go_streams (\<lparr>go_categories = None, go_countries = None, go_regions = None, go_subdivisions = None, go_streams = loadStreams 0 [] [] [] [Stream.make (Some ''A.us'') ''A'' ''http://b'' None [] [] [] False 1 ''streams/us.m3u'', Stream.make (Some ''A.us'') ''A'' ''http://a'' None [] [] [] False 2 ''streams/us.m3u''], go_logger = ''generators.log''\<rparr> :: (unit, unit, unit) GenOptions))) \<le> 1"
  by (rule generators_no_duplicate_channel [where g = IndexGenerator and n = 0 and rd = "(\<lparr>rd_channels = [], rd_categories = [], rd_countries = [], rd_languages = [], rd_regions = [], rd_subdivisions = []\<rparr> :: (unit, unit, unit) RefData)" and docs = "[Stream.make (Some ''A.us'') ''A'' ''http://b'' None [] [] [] False 1 ''streams/us.m3u'', Stream.make (Some ''A.us'') ''A'' ''http://a'' None [] [] [] False 2 ''streams/us.m3u'']"])
     (simp_all add: generate_main_def Let_def ascii_simps)

text \<open>
  (C20) A generator whose promise rejects ends the run: the events up to and including it have
  happened, none after it, and \<open>main()\<close> fails.
\<close>

theorem generate_stops_at_failure:
  assumes "i < length (generate_main n rd docs)"
    and "generate_main n rd docs ! i = Generate g opts" and "\<not> ok g opts"
    and "\<forall>j < i. event_ok ok (generate_main n rd docs ! j)"
  shows "run_events ok (generate_main n rd docs) = (take (Suc i) (generate_main n rd docs), False)"
proof -
  let ?es = "generate_main n rd docs"
  have split: "?es = take i ?es @ ?es ! i # drop (Suc i) ?es"
    using assms(1) by (rule id_take_nth_drop)
  have pre: "\<forall>e \<in> set (take i ?es). event_ok ok e"
    using assms(4) by (auto simp: in_set_conv_nth)
  have "\<not> event_ok ok (?es ! i)" using assms(2,3) by (simp add: event_ok_def)
  then have "run_events ok ?es = (take i ?es @ [?es ! i], False)"
    using run_events_stop [OF pre] split by metis
  then show ?thesis using assms(1) by (simp add: take_Suc_conv_app_nth)
qed

theorem generate_stops_at_failure_witness:
  "run_events (\<lambda>g opts. g \<noteq> CountriesGenerator)
     (generate_main 0 (\<lparr>rd_channels = [], rd_categories = [], rd_countries = [], rd_languages = [],
        rd_regions = [], rd_subdivisions = []\<rparr> :: (unit, unit, unit) RefData) []) =
   (take 5 (generate_main 0 (\<lparr>rd_channels = [], rd_categories = [], rd_countries = [], rd_languages = [],
        rd_regions = [], rd_subdivisions = []\<rparr> :: (unit, unit, unit) RefData) []), False)"
proof -
  have "run_events (\<lambda>g opts. g \<noteq> CountriesGenerator)
     (generate_main 0 (\<lparr>rd_channels = [], rd_categories = [], rd_countries = [], rd_languages = [],
        rd_regions = [], rd_subdivisions = []\<rparr> :: (unit, unit, unit) RefData) []) =
   (take (Suc 4) (generate_main 0 (\<lparr>rd_channels = [], rd_categories = [], rd_countries = [], rd_languages = [],
        rd_regions = [], rd_subdivisions = []\<rparr> :: (unit, unit, unit) RefData) []), False)"
    by (rule generate_stops_at_failure [where
          opts = "\<lparr>go_categories = None, go_countries = Some [], go_regions = Some [],
                   go_subdivisions = Some [], go_streams = [], go_logger = ''generators.log''\<rparr>"])
       (auto simp: generate_main_def loadStreams_def uniqBy_streams_def orderBy_streams_def
          event_ok_def less_Suc_eq numeral_eq_Suc Let_def)
  then show ?thesis by (simp add: numeral_eq_Suc)
qed

end
