(* ===== verification/ChannelId.thy ===== *)
theory ChannelId
  imports Models
begin

text \<open>
  The channel identifier derivation \<open>generateChannelId(name, code)\<close> of
  validate.ts (lines 121--133).  Each \<open>name.replace(/re/g, r)\<close> is
  \<open>replace_all m r\<close>, where the matcher \<open>m\<close> returns the length of the match of
  \<open>re\<close> at the start of a string (the leftmost, backtracking match of the JavaScript
  engine), and \<open>replace_all\<close> scans left to right as a global replacement does.
\<close>

subsection \<open>Global replacement\<close>

function replace_all :: "(string \<Rightarrow> nat option) \<Rightarrow> string \<Rightarrow> string \<Rightarrow> string" where
  "replace_all m r [] = (case m [] of Some 0 \<Rightarrow> r | _ \<Rightarrow> [])"
| "replace_all m r (c # cs) =
     (case m (c # cs) of
        None \<Rightarrow> c # replace_all m r cs
      | Some k \<Rightarrow>
          if k = 0 then r @ c # replace_all m r cs
          else r @ replace_all m r (drop k (c # cs)))"
  by pat_completeness auto
termination
  by (relation "measure (\<lambda>(m, r, s). length s)") auto

subsection \<open>The matchers of the four regular expressions\<close>

definition spaces_len :: "string \<Rightarrow> nat" where
  "spaces_len s = length (takeWhile (\<lambda>c. c = CHR '' '') s)"

text \<open>
  \<open>/ *\([^)]*\) */\<close>: the spaces before \<open>(\<close> are all taken (a shorter run would
  leave a space where \<open>(\<close> is needed), \<open>[^)]*\<close> runs to the first \<open>)\<close>, and the
  trailing spaces are taken greedily.
\<close>

definition match_paren :: "string \<Rightarrow> nat option" where
  "match_paren s =
     (let n = spaces_len s; t = drop n s in
      if t \<noteq> [] \<and> hd t = CHR ''('' then
        (let inner = takeWhile (\<lambda>c. c \<noteq> CHR '')'') (tl t); v = drop (length inner) (tl t) in
         if v \<noteq> [] then Some (n + 1 + length inner + 1 + spaces_len (tl v)) else None)
      else None)"

text \<open>
  \<open>/ *\[[^)]*\] */\<close>: the class is \<open>[^)]\<close>, not \<open>[^\]]\<close>, so \<open>[^)]*\<close> runs to the
  first \<open>)\<close> (or the end) and backtracks to the last \<open>]\<close> before it.  \<open>last_pos x s\<close>
  is the index of the last \<open>x\<close> in \<open>s\<close>.
\<close>

definition last_pos :: "char \<Rightarrow> string \<Rightarrow> nat" where
  "last_pos x s = length s - Suc (length (takeWhile (\<lambda>c. c \<noteq> x) (rev s)))"

definition match_bracket :: "string \<Rightarrow> nat option" where
  "match_bracket s =
     (let n = spaces_len s; t = drop n s in
      if t \<noteq> [] \<and> hd t = CHR ''['' then
        (let seg = takeWhile (\<lambda>c. c \<noteq> CHR '')'') (tl t) in
         if CHR '']'' \<in> set seg then
           (let k = last_pos (CHR '']'') seg in
            Some (n + 1 + k + 1 + spaces_len (drop (Suc k) (tl t))))
         else None)
      else None)"

text \<open>\<open>/\+/gi\<close> and \<open>/[^a-z\d]+/gi\<close>.\<close>

definition match_plus :: "string \<Rightarrow> nat option" where
  "match_plus s = (if s \<noteq> [] \<and> hd s = CHR ''+'' then Some 1 else None)"

definition match_nonalnum :: "string \<Rightarrow> nat option" where
  "match_nonalnum s =
     (let k = length (takeWhile (\<lambda>c. \<not> is_alnum c) s) in if k = 0 then None else Some k)"

subsection \<open>The derivation\<close>

text \<open>
  \<open>transliterate\<close> is the \<open>transliteration\<close> package; only its behaviour on ASCII
  text is modelled (it returns ASCII text unchanged, and the stand-in drops every
  non-ASCII byte).  \<open>generateChannelId_with\<close> keeps the transliteration a parameter,
  so that the lemmas below show which properties do not depend on its folding table.
\<close>

definition transliterate :: "string \<Rightarrow> string" where
  "transliterate s = filter (\<lambda>c. (of_char c :: nat) < 128) s"

definition generateChannelId_with :: "(string \<Rightarrow> string) \<Rightarrow> string \<Rightarrow> string \<Rightarrow> string" where
  "generateChannelId_with tr name code =
     (if name = [] \<or> code = [] then []
      else
        (let name1 = replace_all match_paren [] name;
             name2 = replace_all match_bracket [] name1;
             name3 = replace_all match_plus ''Plus'' name2;
             name4 = replace_all match_nonalnum [] name3;
             name5 = trim name4;
             name6 = tr name5;
             code' = toLowerCase code
         in name6 @ ''.'' @ code'))"

definition generateChannelId :: "string \<Rightarrow> string \<Rightarrow> string" where
  "generateChannelId name code = generateChannelId_with transliterate name code"

subsection \<open>Reference definitions\<close>

text \<open>
  What the pipeline computes, written without regular expressions: \<open>+\<close> becomes
  \<open>Plus\<close> and every character outside \<open>[A-Za-z0-9]\<close> is dropped.
\<close>

definition expand_plus :: "string \<Rightarrow> string" where
  "expand_plus s = concat (map (\<lambda>c. if c = CHR ''+'' then ''Plus'' else [c]) s)"

definition normalize_name :: "string \<Rightarrow> string" where
  "normalize_name name =
     filter is_alnum (expand_plus (replace_all match_bracket [] (replace_all match_paren [] name)))"

subsection \<open>Replacement lemmas\<close>

lemma replace_all_skip:
  "(\<forall>i < length a. m (drop i a @ t) = None) \<Longrightarrow> replace_all m r (a @ t) = a @ replace_all m r t"
proof (induction a)
  case Nil
  then show ?case by simp
next
  case (Cons x a)
  have "m ((x # a) @ t) = None" using Cons.prems by (metis drop0 length_Cons zero_less_Suc)
  moreover have "\<forall>i < length a. m (drop i a @ t) = None" using Cons.prems by fastforce
  ultimately show ?case using Cons.IH by simp
qed

lemma replace_all_unchanged:
  "m [] = None \<Longrightarrow> \<forall>i < length s. m (drop i s) = None \<Longrightarrow> replace_all m r s = s"
  using replace_all_skip [of s m "[]" r] by simp

lemma replace_nonalnum_filter: "replace_all match_nonalnum [] s = filter is_alnum s"
proof (induction "match_nonalnum :: string \<Rightarrow> nat option" "[] :: string" s rule: replace_all.induct)
  case 1
  then show ?case by (simp add: match_nonalnum_def)
next
  case (2 c cs)
  show ?case
  proof (cases "is_alnum c")
    case True
    then have "match_nonalnum (c # cs) = None" by (simp add: match_nonalnum_def)
    with "2"(1) True show ?thesis by simp
  next
    case False
    let ?k = "length (takeWhile (\<lambda>c. \<not> is_alnum c) (c # cs))"
    have m: "match_nonalnum (c # cs) = Some ?k" and k: "?k \<noteq> 0"
      using False by (simp_all add: match_nonalnum_def)
    have "filter is_alnum (c # cs) = filter is_alnum (drop ?k (c # cs))"
      by (metis (no_types) append_Nil filter_append filter_False set_takeWhileD takeWhile_eq_take append_take_drop_id)
    with "2"(3)[OF m] m k show ?thesis by simp
  qed
qed

lemma replace_plus_expand: "replace_all match_plus ''Plus'' s = expand_plus s"
  by (induction s) (auto simp: match_plus_def expand_plus_def)

text \<open>Both bracket matchers need their opening character after the leading spaces.\<close>

lemma hd_drop_spaces: "drop (spaces_len s) s = d # ds \<Longrightarrow> d \<in> set s"
  by (metis in_set_dropD list.set_intros(1))

lemma match_paren_no_open: "CHR ''('' \<notin> set s \<Longrightarrow> match_paren s = None"
  by (cases "drop (spaces_len s) s") (auto simp: match_paren_def Let_def dest: hd_drop_spaces)

lemma match_bracket_no_open: "CHR ''['' \<notin> set s \<Longrightarrow> match_bracket s = None"
  by (cases "drop (spaces_len s) s") (auto simp: match_bracket_def Let_def dest: hd_drop_spaces)

lemma replace_paren_no_open: "CHR ''('' \<notin> set s \<Longrightarrow> replace_all match_paren [] s = s"
  by (rule replace_all_unchanged) (auto intro!: match_paren_no_open dest: in_set_dropD)

lemma replace_bracket_no_open: "CHR ''['' \<notin> set s \<Longrightarrow> replace_all match_bracket [] s = s"
  by (rule replace_all_unchanged) (auto intro!: match_bracket_no_open dest: in_set_dropD)

lemma expand_plus_alnum: "\<forall>c \<in> set s. is_alnum c \<Longrightarrow> expand_plus s = s"
  by (induction s) (auto simp: expand_plus_def ascii_simps)

lemma normalize_name_alnum: "\<forall>c \<in> set (normalize_name name). is_alnum c"
  by (simp add: normalize_name_def)

lemma transliterate_alnum: "\<forall>c \<in> set s. is_alnum c \<Longrightarrow> transliterate s = s"
  by (auto simp: transliterate_def ascii_simps filter_id_conv)

lemma generateChannelId_with_eq:
  "generateChannelId_with tr name code =
     (if name = [] \<or> code = [] then [] else tr (normalize_name name) @ ''.'' @ toLowerCase code)"
  by (simp add: generateChannelId_with_def Let_def replace_nonalnum_filter replace_plus_expand
      normalize_name_def trim_alnum)

subsection \<open>The bracket expression\<close>

lemma spaces_len_alnum: "s \<noteq> [] \<Longrightarrow> is_alnum (hd s) \<Longrightarrow> spaces_len s = 0"
  by (cases s) (auto simp: spaces_len_def ascii_simps)

lemma alnum_not_punct:
  "is_alnum ch \<Longrightarrow> ch \<noteq> CHR ''['' \<and> ch \<noteq> CHR '']'' \<and> ch \<noteq> CHR ''('' \<and> ch \<noteq> CHR '')''"
  by (auto simp: ascii_simps)

lemma match_bracket_alnum: "s \<noteq> [] \<Longrightarrow> is_alnum (hd s) \<Longrightarrow> match_bracket s = None"
  using alnum_not_punct [of "hd s"] by (simp add: match_bracket_def spaces_len_alnum)

lemma replace_bracket_alnum_prefix:
  assumes "\<forall>ch \<in> set a. is_alnum ch"
  shows "replace_all match_bracket [] (a @ t) = a @ replace_all match_bracket [] t"
proof (rule replace_all_skip, intro allI impI)
  fix i assume "i < length a"
  then have "drop i a \<noteq> []" and "hd (drop i a) \<in> set a"
    by (simp_all add: hd_drop_conv_nth)
  with assms show "match_bracket (drop i a @ t) = None"
    by (simp add: match_bracket_alnum)
qed

lemma replace_bracket_alnum:
  "\<forall>ch \<in> set a. is_alnum ch \<Longrightarrow> replace_all match_bracket [] a = a"
  using alnum_not_punct by (blast intro: replace_bracket_no_open)

lemma drop_length_append: "n = length p \<Longrightarrow> drop n (p @ c) = c"
  by simp

lemma takeWhile_upto: "\<forall>ch \<in> set xs. P ch \<Longrightarrow> \<not> P z \<Longrightarrow> takeWhile P (xs @ z # ys) = xs"
  by (induction xs) auto

lemma match_bracket_two_groups:
  assumes c: "\<forall>ch \<in> set c. is_alnum ch" and no: "CHR '')'' \<notin> set (x @ b @ y)"
  defines "rest \<equiv> x @ CHR '']'' # b @ CHR ''['' # y @ CHR '']'' # c"
  shows "match_bracket (CHR ''['' # rest) = Some (length x + length b + length y + 4)"
proof -
  have cn: "CHR '')'' \<notin> set c" "CHR '']'' \<notin> set c" using c by (auto simp: ascii_simps)
  have seg: "takeWhile (\<lambda>ch. ch \<noteq> CHR '')'') rest = rest"
    using no cn by (auto simp: rest_def)
  have "rev rest = rev c @ CHR '']'' # rev (x @ CHR '']'' # b @ CHR ''['' # y)"
    by (simp add: rest_def)
  moreover have "\<forall>ch \<in> set (rev c). ch \<noteq> CHR '']''" using cn by auto
  ultimately have tw: "takeWhile (\<lambda>ch. ch \<noteq> CHR '']'') (rev rest) = rev c"
    using takeWhile_upto [of "rev c" "\<lambda>ch. ch \<noteq> CHR '']''"] by simp
  have k: "last_pos (CHR '']'') rest = length rest - Suc (length c)"
    by (simp add: last_pos_def tw)
  let ?q = "x @ CHR '']'' # b @ CHR ''['' # y @ [CHR '']'']"
  have r: "rest = ?q @ c" by (simp add: rest_def)
  then have "Suc (length rest - Suc (length c)) = length ?q" by simp
  with r have d: "drop (Suc (length rest - Suc (length c))) rest = c"
    by (simp only: drop_length_append)
  have sp: "spaces_len c = 0"
    using c by (cases c) (auto simp: spaces_len_def ascii_simps)
  have s0: "spaces_len (CHR ''['' # rest) = 0" by (simp add: spaces_len_def)
  have lr: "length rest = length x + length b + length y + 3 + length c" by (simp add: rest_def)
  have "CHR '']'' \<in> set rest" by (simp add: rest_def)
  then show ?thesis
    using seg k d sp s0 lr by (simp add: match_bracket_def Let_def del: takeWhile_eq_all_conv)
qed

theorem strip_brackets_swallows_between:
  assumes a: "\<forall>ch \<in> set a. is_alnum ch" and c: "\<forall>ch \<in> set c. is_alnum ch"
    and no: "CHR '')'' \<notin> set (x @ b @ y)"
  shows "replace_all match_bracket []
           (a @ CHR ''['' # x @ CHR '']'' # b @ CHR ''['' # y @ CHR '']'' # c) = a @ c"
proof -
  let ?rest = "x @ CHR '']'' # b @ CHR ''['' # y @ CHR '']'' # c"
  have m: "match_bracket (CHR ''['' # ?rest) = Some (length x + length b + length y + 4)"
    using match_bracket_two_groups [OF c no] by simp
  let ?p = "CHR ''['' # x @ CHR '']'' # b @ CHR ''['' # y @ [CHR '']'']"
  have "CHR ''['' # ?rest = ?p @ c" and "length ?p = length x + length b + length y + 4"
    by simp_all
  then have "drop (length x + length b + length y + 4) (CHR ''['' # ?rest) = c"
    by (metis append_eq_conv_conj)
  then have "replace_all match_bracket [] (CHR ''['' # ?rest) = c"
    using m by (simp add: replace_bracket_alnum [OF c])
  then show ?thesis using replace_bracket_alnum_prefix [OF a] by simp
qed

subsection \<open>Properties\<close>

lemmas channel_id_simps = generateChannelId_def generateChannelId_with_def Let_def
  match_paren_def match_bracket_def match_plus_def match_nonalnum_def spaces_len_def last_pos_def
  trim_def transliterate_def toLowerCase_def

text \<open>
  (C21) Transliteration runs after every non-ASCII character has been removed, so it cannot
  fold diacritics: any transliteration that returns ASCII alphanumeric text unchanged gives
  the same identifier as the code's.
\<close>

theorem generateChannelId_transliteration_irrelevant:
  assumes "\<forall>s. (\<forall>c \<in> set s. is_alnum c) \<longrightarrow> tr s = s"
  shows "generateChannelId_with tr name code = generateChannelId name code"
  using assms by (simp add: generateChannelId_def generateChannelId_with_eq normalize_name_alnum
      transliterate_alnum)

theorem generateChannelId_transliteration_irrelevant_witness:
  "generateChannelId_with (map (\<lambda>c. if c = CHR 0xE9 then CHR ''e'' else c))
     (''T'' @ [CHR 0xE9] @ ''l'') ''fr'' = ''Tl.fr''"
proof -
  have ne: "\<And>c. is_alnum c \<Longrightarrow> c \<noteq> CHR 0xE9" by (auto simp: ascii_simps)
  have "generateChannelId_with (map (\<lambda>c. if c = CHR 0xE9 then CHR ''e'' else c))
          (''T'' @ [CHR 0xE9] @ ''l'') ''fr'' = generateChannelId (''T'' @ [CHR 0xE9] @ ''l'') ''fr''"
    by (rule generateChannelId_transliteration_irrelevant) (use ne in \<open>auto intro!: map_idI\<close>)
  then show ?thesis by (simp add: channel_id_simps ascii_simps)
qed

text \<open>
  (C22) The bracket expression \<open>/ *\[[^)]*\] */\<close> uses the class \<open>[^)]\<close>: in a
  name with two bracketed groups it removes everything from the first \<open>[\<close> to the last
  \<open>]\<close>, including the text between the groups.
\<close>

theorem generateChannelId_brackets_swallow:
  assumes "\<forall>ch \<in> set a. is_alnum ch" and "\<forall>ch \<in> set c. is_alnum ch"
    and "CHR '')'' \<notin> set (x @ b @ y)" and "CHR ''('' \<notin> set (x @ b @ y)"
    and "code \<noteq> []"
  shows "generateChannelId (a @ CHR ''['' # x @ CHR '']'' # b @ CHR ''['' # y @ CHR '']'' # c) code =
           a @ c @ ''.'' @ toLowerCase code"
proof -
  let ?n = "a @ CHR ''['' # x @ CHR '']'' # b @ CHR ''['' # y @ CHR '']'' # c"
  have "CHR ''('' \<notin> set ?n" using assms(1,2,4) alnum_not_punct by auto
  then have "replace_all match_bracket [] (replace_all match_paren [] ?n) = a @ c"
    using strip_brackets_swallows_between [OF assms(1-3)] by (simp add: replace_paren_no_open)
  moreover have ac: "\<forall>ch \<in> set (a @ c). is_alnum ch" using assms(1,2) by auto
  ultimately have "normalize_name ?n = a @ c"
    by (simp add: normalize_name_def expand_plus_alnum)
  with assms(5) ac show ?thesis
    by (simp add: generateChannelId_def generateChannelId_with_eq transliterate_alnum)
qed

theorem generateChannelId_brackets_swallow_witness:
  "generateChannelId ''CNN[HD]International[US]'' ''us'' = ''CNN.us''"
  using generateChannelId_brackets_swallow [of "''CNN''" "[]" "''HD''" "''International''" "''US''" "''us''"]
  by (simp add: ascii_simps toLowerCase_def)

text \<open>
  (C23) A non-empty derived identifier has the form of a channel id: an ASCII alphanumeric
  name, a dot, and a non-empty code with no upper-case letter.
\<close>

theorem generateChannelId_shape:
  assumes "generateChannelId name code \<noteq> []"
  shows "\<exists>p q. generateChannelId name code = p @ ''.'' @ q \<and> (\<forall>c \<in> set p. is_alnum c) \<and>
           q \<noteq> [] \<and> (\<forall>c \<in> set q. \<not> is_upper c)"
proof -
  have eq: "generateChannelId name code =
      (if name = [] \<or> code = [] then [] else normalize_name name @ ''.'' @ toLowerCase code)"
    by (simp add: generateChannelId_def generateChannelId_with_eq transliterate_alnum
        normalize_name_alnum)
  with assms have "code \<noteq> []" by auto
  with eq assms have "generateChannelId name code = normalize_name name @ ''.'' @ toLowerCase code"
    by auto
  moreover have "\<forall>c \<in> set (toLowerCase code). \<not> is_upper c" by (auto simp: toLowerCase_def)
  ultimately show ?thesis using normalize_name_alnum [of name] \<open>code \<noteq> []\<close>
    by (intro exI [of _ "normalize_name name"] exI [of _ "toLowerCase code"]) simp
qed

theorem generateChannelId_shape_witness:
  "\<exists>p q. ''RT.fr'' = p @ ''.'' @ q \<and> (\<forall>c \<in> set p. is_alnum c) \<and>
           q \<noteq> [] \<and> (\<forall>c \<in> set q. \<not> is_upper c)"
proof -
  have "\<exists>p q. generateChannelId ''RT (Arabic)'' ''fr'' = p @ ''.'' @ q \<and> (\<forall>c \<in> set p. is_alnum c) \<and>
           q \<noteq> [] \<and> (\<forall>c \<in> set q. \<not> is_upper c)"
    by (rule generateChannelId_shape) (simp add: channel_id_simps ascii_simps)
  then show ?thesis by (simp add: channel_id_simps ascii_simps)
qed

end
