(* ===== verification/Validate.thy ===== *)
theory Validate
  imports ChannelId ChannelIndex Playlist
begin

text \<open>
  The validator, \<open>main\<close> of validate.ts (lines 18--117).  For each playlist file it builds
  a log: a parse failure is one error at line 0; otherwise every parsed stream runs three
  checks in order -- unknown channel (warning), URL already seen in this file (warning),
  blocklist hit (error).  Files with a non-empty log are printed, their errors and warnings
  are accumulated, and the run fails if any error was logged.  Reading and parsing a file is
  the parameter \<open>load\<close> (\<open>parser.parse\<close>: \<open>Inl\<close> its exception message), so the
  lemmas below hold for any parser; \<open>load_playlist\<close> instantiates it with the model of
  Playlist.  \<open>chalk\<close> is taken as the identity (no colour codes).
\<close>

subsection \<open>Log items\<close>

definition warning_item :: "nat \<Rightarrow> string \<Rightarrow> LogItem" where
  "warning_item n msg = \<lparr>log_type = LWarning, log_line = n, log_message = msg\<rparr>"

definition error_item :: "nat \<Rightarrow> string \<Rightarrow> LogItem" where
  "error_item n msg = \<lparr>log_type = LError, log_line = n, log_message = msg\<rparr>"

definition quoted :: "string \<Rightarrow> string" where
  "quoted s = [quote] @ s @ [quote]"

subsection \<open>The checks of one stream\<close>

text \<open>\<open>stream.channel && !channels.first(channel => channel.id === stream.channel)\<close>.\<close>

definition unknown_channel :: "Channel list \<Rightarrow> string option \<Rightarrow> bool" where
  "unknown_channel channels c =
     (case c of None \<Rightarrow> False | Some k \<Rightarrow> k \<noteq> [] \<and> \<not> channel_in_database channels k)"

text \<open>\<open>stream.url && buffer.has(stream.url)\<close>; the buffer is the set of URLs seen.\<close>

definition already_on_playlist :: "string list \<Rightarrow> string \<Rightarrow> bool" where
  "already_on_playlist buffer u \<longleftrightarrow> u \<noteq> [] \<and> u \<in> set buffer"

text \<open>
  The blocklist predicate of lines 69--73: the declared channel or the derived id equals the
  entry's channel, ignoring case.
\<close>

definition blocked_match :: "string \<Rightarrow> string \<Rightarrow> Blocked \<Rightarrow> bool" where
  "blocked_match declared derived b \<longleftrightarrow>
     toLowerCase declared = toLowerCase (bl_channel b) \<or>
     toLowerCase derived = toLowerCase (bl_channel b)"

definition type_error_null :: string where
  "type_error_null = ''Cannot read properties of null (reading '' @ [CHR 0x27] @ ''toLowerCase''
     @ [CHR 0x27] @ '')''"

text \<open>
  One iteration of \<open>playlist.streams.forEach\<close>, on the URL buffer and the log.  With no
  channel, \<open>stream.channel.toLowerCase()\<close> in the predicate of \<open>blocklist.first\<close>
  throws a \<open>TypeError\<close> as soon as the predicate runs, that is when the blocklist is not
  empty: \<open>Inl\<close> carries its message and the log as it was when it was thrown.
\<close>

definition check_stream ::
  "Channel list \<Rightarrow> Blocked list \<Rightarrow> string \<Rightarrow> string list \<times> LogItem list \<Rightarrow> Stream \<Rightarrow>
   (string \<times> LogItem list) + (string list \<times> LogItem list)" where
  "check_stream channels blocklist countryCode bl s =
     (let (buffer, log) = bl;
          log1 = log @ (if unknown_channel channels (st_channel s)
                        then [warning_item (st_line s)
                                (quoted (case st_channel s of Some c \<Rightarrow> c | None \<Rightarrow> [])
                                 @ '' is not in the database'')]
                        else []);
          dup = already_on_playlist buffer (st_url s);
          log2 = log1 @ (if dup then [warning_item (st_line s)
                                        (quoted (st_url s) @ '' is already on the playlist'')]
                         else []);
          buffer' = (if dup then buffer else List.insert (st_url s) buffer);
          channelId = generateChannelId (st_name s) countryCode
      in case st_channel s of
           None \<Rightarrow> (if blocklist = [] then Inr (buffer', log2) else Inl (type_error_null, log2))
         | Some c \<Rightarrow>
             (case first_by (blocked_match c channelId) blocklist of
                None \<Rightarrow> Inr (buffer', log2)
              | Some b \<Rightarrow>
                  Inr (buffer', log2 @ [error_item (st_line s)
                     (quoted (st_name s) @
                      '' is on the blocklist due to claims of copyright holders ('' @ bl_ref b @ '')'')])))"

fun check_streams ::
  "Channel list \<Rightarrow> Blocked list \<Rightarrow> string \<Rightarrow> string list \<times> LogItem list \<Rightarrow> Stream list \<Rightarrow>
   (string \<times> LogItem list) + LogItem list" where
  "check_streams channels blocklist cc bl [] = Inr (snd bl)"
| "check_streams channels blocklist cc bl (s # ss) =
     (case check_stream channels blocklist cc bl s of
        Inl e \<Rightarrow> Inl e
      | Inr bl' \<Rightarrow> check_streams channels blocklist cc bl' ss)"

subsection \<open>Reference: the items of a stream from the URLs before it\<close>

text \<open>
  What the loop logs for one stream, as a function of the set of URLs seen before it in the
  file: the three checks in their order, each contributing at most one item.
\<close>

definition stream_items ::
  "Channel list \<Rightarrow> Blocked list \<Rightarrow> string \<Rightarrow> string set \<Rightarrow> Stream \<Rightarrow> LogItem list" where
  "stream_items channels blocklist countryCode seen s =
     (if unknown_channel channels (st_channel s)
      then [warning_item (st_line s)
              (quoted (case st_channel s of Some c \<Rightarrow> c | None \<Rightarrow> []) @ '' is not in the database'')]
      else []) @
     (if st_url s \<noteq> [] \<and> st_url s \<in> seen
      then [warning_item (st_line s) (quoted (st_url s) @ '' is already on the playlist'')]
      else []) @
     (case st_channel s of
        None \<Rightarrow> []
      | Some c \<Rightarrow>
          (case first_by (blocked_match c (generateChannelId (st_name s) countryCode)) blocklist of
             None \<Rightarrow> []
           | Some b \<Rightarrow> [error_item (st_line s)
                (quoted (st_name s) @
                 '' is on the blocklist due to claims of copyright holders ('' @ bl_ref b @ '')'')]))"

fun with_prefix :: "'a list \<Rightarrow> 'a list \<Rightarrow> ('a list \<times> 'a) list" where
  "with_prefix pre [] = []"
| "with_prefix pre (x # xs) = (pre, x) # with_prefix (pre @ [x]) xs"

definition file_items ::
  "Channel list \<Rightarrow> Blocked list \<Rightarrow> string \<Rightarrow> Stream list \<Rightarrow> LogItem list" where
  "file_items channels blocklist countryCode ss =
     concat (map (\<lambda>(pre, s). stream_items channels blocklist countryCode (set (map st_url pre)) s)
       (with_prefix [] ss))"

text \<open>An item of the form the blocklist check logs, citing an entry of the blocklist.\<close>

definition blocklist_error :: "Blocked list \<Rightarrow> LogItem \<Rightarrow> bool" where
  "blocklist_error blocklist i \<longleftrightarrow>
     (\<exists>b \<in> set blocklist. \<exists>nm. i = error_item (log_line i)
        (quoted nm @ '' is on the blocklist due to claims of copyright holders ('' @ bl_ref b @ '')''))"

subsection \<open>One file\<close>

text \<open>
  Lines 36--88: the country hint, the relative path, the parse and the checks; an exception
  of either becomes one error item at line 0 with the lower-cased message, after the items
  already logged.
\<close>

definition file_log ::
  "(string \<Rightarrow> string + Stream list) \<Rightarrow> Channel list \<Rightarrow> Blocked list \<Rightarrow> string \<Rightarrow> string \<Rightarrow>
   LogItem list" where
  "file_log load channels blocklist streamsDir filepath =
     (let countryCode = countryCode_of (basename filepath);
          relativeFilepath = replace_first streamsDir [] filepath
      in case load relativeFilepath of
           Inl msg \<Rightarrow> [error_item 0 (toLowerCase msg)]
         | Inr streams \<Rightarrow>
             (case check_streams channels blocklist countryCode ([], []) streams of
                Inl (msg, log) \<Rightarrow> log @ [error_item 0 (toLowerCase msg)]
              | Inr log \<Rightarrow> log))"

subsection \<open>The run\<close>

record VState =
  errors :: "LogItem list"
  warnings :: "LogItem list"
  out :: "string list"

definition format_item :: "LogItem \<Rightarrow> string" where
  "format_item i =
     '' '' @ padEnd 6 (string_of_nat (log_line i)) @ padEnd 9 (log_type_string (log_type i)) @
     log_message i"

definition is_error :: "LogItem \<Rightarrow> bool" where
  "is_error i \<longleftrightarrow> log_type i = LError"

definition is_warning :: "LogItem \<Rightarrow> bool" where
  "is_warning i \<longleftrightarrow> log_type i = LWarning"

text \<open>Lines 35--104, one file: skip a non-playlist, report a non-empty log.\<close>

definition validate_file ::
  "(string \<Rightarrow> string + Stream list) \<Rightarrow> Channel list \<Rightarrow> Blocked list \<Rightarrow> string \<Rightarrow>
   VState \<Rightarrow> string \<Rightarrow> VState" where
  "validate_file load channels blocklist streamsDir st filepath =
     (if extension filepath \<noteq> ''m3u'' then st
      else
        (let log = file_log load channels blocklist streamsDir filepath in
         if log = [] then st
         else st\<lparr>out := out st @ [CHR ''\<newline>'' # filepath] @ map format_item log,
                 errors := errors st @ filter is_error log,
                 warnings := warnings st @ filter is_warning log\<rparr>))"

definition validate_files ::
  "(string \<Rightarrow> string + Stream list) \<Rightarrow> Channel list \<Rightarrow> Blocked list \<Rightarrow> string \<Rightarrow>
   VState \<Rightarrow> string list \<Rightarrow> VState" where
  "validate_files load channels blocklist streamsDir st files =
     fold (\<lambda>fp st. validate_file load channels blocklist streamsDir st fp) files st"

definition summary_line :: "VState \<Rightarrow> string" where
  "summary_line st =
     CHR ''\<newline>'' # string_of_nat (length (errors st) + length (warnings st)) @ '' problems ('' @
     string_of_nat (length (errors st)) @ '' errors, '' @
     string_of_nat (length (warnings st)) @ '' warnings)''"

text \<open>Lines 21--31: the two lines printed while loading and the empty collections.\<close>

definition vstate0 :: "Blocked list \<Rightarrow> VState" where
  "vstate0 blocklist =
     \<lparr>errors = [], warnings = [],
      out = [''loading blocklist...'', ''found '' @ string_of_nat (length blocklist) @ '' records'']\<rparr>"

text \<open>The whole of \<open>main\<close>: the printed lines and the exit status.\<close>

definition validate_main ::
  "(string \<Rightarrow> string + Stream list) \<Rightarrow> Channel list \<Rightarrow> Blocked list \<Rightarrow> string \<Rightarrow>
   string list \<Rightarrow> string list \<times> nat" where
  "validate_main load channels blocklist streamsDir files =
     (let st = validate_files load channels blocklist streamsDir (vstate0 blocklist) files
      in (out st @ [summary_line st], if errors st = [] then 0 else 1))"

text \<open>The parser of Playlist behind \<open>load\<close>, over a store of file contents.\<close>

definition load_playlist :: "(string \<rightharpoonup> string) \<Rightarrow> string \<Rightarrow> string + Stream list" where
  "load_playlist store rel =
     (case store rel of
        None \<Rightarrow> Inl (''ENOENT: no such file or directory, open '' @ [CHR 0x27] @ rel @ [CHR 0x27])
      | Some content \<Rightarrow> parse_playlist rel content)"

text \<open>Line 34: the files named on the command line, or else every playlist of the listing.\<close>

definition select_files :: "string list \<Rightarrow> string list \<Rightarrow> string list" where
  "select_files args listing = (if args \<noteq> [] then args else listing)"

definition validate_cli ::
  "(string \<Rightarrow> string + Stream list) \<Rightarrow> Channel list \<Rightarrow> Blocked list \<Rightarrow> string \<Rightarrow>
   string list \<Rightarrow> string list \<Rightarrow> string list \<times> nat" where
  "validate_cli load channels blocklist streamsDir args listing =
     validate_main load channels blocklist streamsDir (select_files args listing)"

subsection \<open>Lemmas\<close>

lemma check_stream_Inr:
  assumes "st_channel s \<noteq> None \<or> blocklist = []"
  shows "check_stream channels blocklist cc (buffer, log) s =
           Inr (if already_on_playlist buffer (st_url s) then buffer else List.insert (st_url s) buffer,
                log @ stream_items channels blocklist cc (set buffer) s)"
  using assms
  by (auto simp: check_stream_def stream_items_def already_on_playlist_def Let_def first_by_def
      unknown_channel_def split: option.splits)

lemma check_streams_items:
  assumes "\<forall>s \<in> set ss. st_channel s \<noteq> None \<or> blocklist = []"
    and "set buffer - {[]} = set (map st_url pre) - {[]}"
  shows "check_streams channels blocklist cc (buffer, log) ss =
           Inr (log @ concat (map (\<lambda>(p, s). stream_items channels blocklist cc (set (map st_url p)) s)
                               (with_prefix pre ss)))"
  using assms
proof (induction ss arbitrary: buffer log pre)
  case Nil
  then show ?case by simp
next
  case (Cons s ss)
  have c: "st_channel s \<noteq> None \<or> blocklist = []"
    and rest: "\<forall>s \<in> set ss. st_channel s \<noteq> None \<or> blocklist = []"
    using Cons.prems(1) by auto
  let ?buf' = "if already_on_playlist buffer (st_url s) then buffer else List.insert (st_url s) buffer"
  have seen: "stream_items channels blocklist cc (set buffer) s =
              stream_items channels blocklist cc (set (map st_url pre)) s"
    using Cons.prems(2) by (auto simp: stream_items_def)
  have "set ?buf' - {[]} = set (map st_url (pre @ [s])) - {[]}"
    using Cons.prems(2) by (auto simp: already_on_playlist_def)
  moreover have "check_stream channels blocklist cc (buffer, log) s =
      Inr (?buf', log @ stream_items channels blocklist cc (set buffer) s)"
    using c by (rule check_stream_Inr)
  ultimately show ?case using Cons.IH [OF rest, of ?buf' "pre @ [s]"] seen by simp
qed

lemma with_prefix_append:
  "with_prefix pre (xs @ ys) = with_prefix pre xs @ with_prefix (pre @ xs) ys"
  by (induction xs arbitrary: pre) auto

lemma check_streams_throw:
  assumes "\<forall>s \<in> set ss. st_channel s \<noteq> None" and "st_channel s0 = None"
    and "blocklist \<noteq> []" and "set buffer - {[]} = set (map st_url pre) - {[]}"
  shows "check_streams channels blocklist cc (buffer, log) (ss @ s0 # post) =
           Inl (type_error_null,
                log @ concat (map (\<lambda>(p, s). stream_items channels blocklist cc (set (map st_url p)) s)
                               (with_prefix pre (ss @ [s0]))))"
  using assms
proof (induction ss arbitrary: buffer log pre)
  case Nil
  then show ?case
    by (auto simp: check_stream_def stream_items_def unknown_channel_def already_on_playlist_def
        Let_def)
next
  case (Cons s ss)
  have c: "st_channel s \<noteq> None \<or> blocklist = []" using Cons.prems(1) by auto
  let ?buf' = "if already_on_playlist buffer (st_url s) then buffer else List.insert (st_url s) buffer"
  have seen: "stream_items channels blocklist cc (set buffer) s =
              stream_items channels blocklist cc (set (map st_url pre)) s"
    using Cons.prems(4) by (auto simp: stream_items_def)
  have "set ?buf' - {[]} = set (map st_url (pre @ [s])) - {[]}"
    using Cons.prems(4) by (auto simp: already_on_playlist_def)
  moreover have "check_stream channels blocklist cc (buffer, log) s =
      Inr (?buf', log @ stream_items channels blocklist cc (set buffer) s)"
    using c by (rule check_stream_Inr)
  ultimately show ?case using Cons.IH [of ?buf' "pre @ [s]"] Cons.prems(1,2,3) seen by simp
qed

lemma validate_file_acc:
  "errors (validate_file load channels blocklist sd st fp) =
     errors st @ (if extension fp = ''m3u'' then filter is_error (file_log load channels blocklist sd fp) else []) \<and>
   warnings (validate_file load channels blocklist sd st fp) =
     warnings st @ (if extension fp = ''m3u'' then filter is_warning (file_log load channels blocklist sd fp) else [])"
  by (simp add: validate_file_def Let_def)

lemma validate_files_errors:
  "errors (validate_files load channels blocklist sd st files) =
     errors st @ concat (map (\<lambda>fp. filter is_error (file_log load channels blocklist sd fp))
                          (filter (\<lambda>fp. extension fp = ''m3u'') files)) \<and>
   warnings (validate_files load channels blocklist sd st files) =
     warnings st @ concat (map (\<lambda>fp. filter is_warning (file_log load channels blocklist sd fp))
                            (filter (\<lambda>fp. extension fp = ''m3u'') files))"
  by (induction files arbitrary: st) (simp_all add: validate_files_def validate_file_acc)

lemma validate_main_exit:
  "snd (validate_main load channels blocklist sd files) =
     (if \<exists>fp \<in> set files. extension fp = ''m3u'' \<and>
            (\<exists>i \<in> set (file_log load channels blocklist sd fp). is_error i)
      then 1 else 0)"
  by (auto simp: validate_main_def vstate0_def Let_def validate_files_errors filter_empty_conv)

lemma length_filter_error_warning:
  "length (filter is_error xs) + length (filter is_warning xs) = length xs"
  by (induction xs) (auto simp: is_error_def is_warning_def intro: log_type.exhaust)

lemma validate_files_out:
  "out (validate_files load channels blocklist sd st files) =
     out st @ concat (map (\<lambda>fp. let log = file_log load channels blocklist sd fp in
                              if log = [] then [] else (CHR ''\<newline>'' # fp) # map format_item log)
                         (filter (\<lambda>fp. extension fp = ''m3u'') files))"
  by (induction files arbitrary: st) (simp_all add: validate_files_def validate_file_def Let_def)

lemma validate_files_count:
  "length (errors (validate_files load channels blocklist sd st files)) +
   length (warnings (validate_files load channels blocklist sd st files)) =
     length (errors st) + length (warnings st) +
     sum_list (map (\<lambda>fp. length (file_log load channels blocklist sd fp))
                 (filter (\<lambda>fp. extension fp = ''m3u'') files))"
proof (induction files arbitrary: st)
  case Nil
  then show ?case by (simp add: validate_files_def)
next
  case (Cons fp files)
  then show ?case
    using length_filter_error_warning [of "file_log load channels blocklist sd fp"]
    by (simp add: validate_files_def validate_file_acc)
qed

lemma stream_items_lines: "i \<in> set (stream_items channels blocklist cc seen s) \<Longrightarrow> log_line i = st_line s"
  by (auto simp: stream_items_def warning_item_def error_item_def split: if_splits option.splits)

lemma stream_items_sorted: "sorted (map log_line (stream_items channels blocklist cc seen s))"
proof -
  have "replicate (length (map log_line (stream_items channels blocklist cc seen s))) (st_line s) =
        map log_line (stream_items channels blocklist cc seen s)"
    by (rule replicate_length_same) (auto simp: stream_items_lines)
  then show ?thesis by (metis sorted_replicate)
qed

lemma with_prefix_snd: "snd ` set (with_prefix pre ss) = set ss"
  by (induction ss arbitrary: pre) auto

lemma with_prefix_items_sorted:
  "sorted (map st_line ss) \<Longrightarrow>
   sorted (map log_line (concat (map (\<lambda>(p, s). stream_items channels blocklist cc (set (map st_url p)) s)
                                 (with_prefix pre ss))))"
proof (induction ss arbitrary: pre)
  case Nil
  then show ?case by simp
next
  case (Cons s ss)
  have "\<forall>i \<in> set (concat (map (\<lambda>(p, s). stream_items channels blocklist cc (set (map st_url p)) s)
                              (with_prefix (pre @ [s]) ss))). st_line s \<le> log_line i"
  proof
    fix i assume "i \<in> set (concat (map (\<lambda>(p, s). stream_items channels blocklist cc (set (map st_url p)) s)
                              (with_prefix (pre @ [s]) ss)))"
    then obtain p s' where "(p, s') \<in> set (with_prefix (pre @ [s]) ss)"
      and i: "i \<in> set (stream_items channels blocklist cc (set (map st_url p)) s')" by auto
    then have "s' \<in> set ss" using with_prefix_snd [of "pre @ [s]" ss] by force
    with Cons.prems i show "st_line s \<le> log_line i" by (simp add: stream_items_lines)
  qed
  with Cons show ?case
    by (fastforce simp: sorted_append stream_items_sorted stream_items_lines)
qed

lemma check_stream_errors:
  assumes "\<forall>i \<in> set log. is_error i \<longrightarrow> blocklist_error blocklist i"
  shows "case check_stream channels blocklist cc (buffer, log) s of
           Inl (m, l) \<Rightarrow> \<forall>i \<in> set l. is_error i \<longrightarrow> blocklist_error blocklist i
         | Inr (b, l) \<Rightarrow> \<forall>i \<in> set l. is_error i \<longrightarrow> blocklist_error blocklist i"
proof (cases "st_channel s")
  case None
  with assms show ?thesis
    by (auto simp: check_stream_def Let_def is_error_def warning_item_def)
next
  case (Some c)
  show ?thesis
  proof (cases "first_by (blocked_match c (generateChannelId (st_name s) cc)) blocklist")
    case None
    with Some assms show ?thesis
      by (auto simp: check_stream_def Let_def is_error_def warning_item_def)
  next
    case (Some b)
    then have "b \<in> set blocklist" by (auto dest: first_by_SomeD)
    with Some \<open>st_channel s = Some c\<close> assms show ?thesis
      by (auto simp: check_stream_def Let_def is_error_def warning_item_def error_item_def
          blocklist_error_def)
  qed
qed

lemma check_streams_errors:
  assumes "\<forall>i \<in> set log. is_error i \<longrightarrow> blocklist_error blocklist i"
  shows "case check_streams channels blocklist cc (buffer, log) ss of
           Inl (m, l) \<Rightarrow> \<forall>i \<in> set l. is_error i \<longrightarrow> blocklist_error blocklist i
         | Inr l \<Rightarrow> \<forall>i \<in> set l. is_error i \<longrightarrow> blocklist_error blocklist i"
  using assms
proof (induction ss arbitrary: buffer log)
  case Nil
  then show ?case by simp
next
  case (Cons s ss)
  note step = check_stream_errors [OF Cons.prems, of channels cc buffer s]
  show ?case
  proof (cases "check_stream channels blocklist cc (buffer, log) s")
    case (Inl e)
    with step show ?thesis by (cases e) simp
  next
    case (Inr bl')
    with step Cons.IH show ?thesis by (cases bl') simp
  qed
qed

lemma stream_items_Nil_iff:
  "stream_items channels blocklist cc seen s = [] \<longleftrightarrow>
     \<not> unknown_channel channels (st_channel s) \<and> (st_url s = [] \<or> st_url s \<notin> seen) \<and>
     (\<forall>c. st_channel s = Some c \<longrightarrow>
        first_by (blocked_match c (generateChannelId (st_name s) cc)) blocklist = None)"
  by (auto simp: stream_items_def split: option.splits)

lemma with_prefix_distinct_iff:
  "distinct (filter P (map f pre)) \<Longrightarrow>
   (\<forall>(p, x) \<in> set (with_prefix pre xs). \<not> P (f x) \<or> f x \<notin> set (map f p)) \<longleftrightarrow>
     distinct (filter P (map f (pre @ xs)))"
proof (induction xs arbitrary: pre)
  case Nil
  then show ?case by simp
next
  case (Cons x xs)
  show ?case
  proof (cases "\<not> P (f x) \<or> f x \<notin> set (map f pre)")
    case True
    with Cons.prems have "distinct (filter P (map f (pre @ [x])))" by auto
    from Cons.IH [OF this] True show ?thesis by simp
  next
    case False
    then have "f x \<in> set (filter P (map f pre))" by auto
    then have "\<not> distinct (filter P (map f pre) @ f x # filter P (map f xs))" by auto
    with False show ?thesis by auto
  qed
qed

lemma with_prefix_ball:
  "(\<forall>(p, s) \<in> set (with_prefix pre ss). Q s) \<longleftrightarrow> (\<forall>s \<in> set ss. Q s)"
  by (induction ss arbitrary: pre) auto

lemma file_items_Nil_iff:
  "file_items channels blocklist cc ss = [] \<longleftrightarrow>
     (\<forall>s \<in> set ss. \<not> unknown_channel channels (st_channel s) \<and>
        (\<forall>c. st_channel s = Some c \<longrightarrow>
           first_by (blocked_match c (generateChannelId (st_name s) cc)) blocklist = None)) \<and>
     distinct (filter (\<lambda>u. u \<noteq> []) (map st_url ss))"
proof -
  have "file_items channels blocklist cc ss = [] \<longleftrightarrow>
      (\<forall>(p, s) \<in> set (with_prefix [] ss). stream_items channels blocklist cc (set (map st_url p)) s = [])"
    by (auto simp: file_items_def)
  also have "\<dots> \<longleftrightarrow>
      (\<forall>(p, s) \<in> set (with_prefix [] ss). \<not> unknown_channel channels (st_channel s) \<and>
        (\<forall>c. st_channel s = Some c \<longrightarrow>
           first_by (blocked_match c (generateChannelId (st_name s) cc)) blocklist = None)) \<and>
      (\<forall>(p, s) \<in> set (with_prefix [] ss). \<not> st_url s \<noteq> [] \<or> st_url s \<notin> set (map st_url p))"
    by (auto simp: stream_items_Nil_iff)
  finally show ?thesis
    using with_prefix_ball [of "[]" ss] with_prefix_distinct_iff [of "\<lambda>u. u \<noteq> []" st_url "[]" ss] by simp
qed

lemma file_log_throw_nonempty:
  assumes "load (replace_first sd [] fp) = Inr ss" and "s0 \<in> set ss" and "st_channel s0 = None"
    and "blocklist \<noteq> []"
  shows "file_log load channels blocklist sd fp \<noteq> []"
proof -
  obtain ys x zs where ss: "ss = ys @ x # zs" and x: "st_channel x = None"
    and ys: "\<forall>y \<in> set ys. st_channel y \<noteq> None"
    using split_list_first_prop [where xs = ss and P = "\<lambda>s. st_channel s = None"] assms(2,3) by blast
  show ?thesis
    using assms(1,4) ss x ys
      check_streams_throw [where buffer = "[]" and pre = "[]" and log = "[]"]
    by (simp add: file_log_def)
qed

lemma file_log_Nil_iff:
  "file_log load channels blocklist sd fp = [] \<longleftrightarrow>
     (\<exists>ss. load (replace_first sd [] fp) = Inr ss \<and>
        (\<forall>s \<in> set ss. st_channel s = None \<longrightarrow> blocklist = []) \<and>
        file_items channels blocklist (countryCode_of (basename fp)) ss = [])"
proof (cases "load (replace_first sd [] fp)")
  case (Inl msg)
  then show ?thesis by (simp add: file_log_def)
next
  case (Inr ss)
  show ?thesis
  proof (cases "\<forall>s \<in> set ss. st_channel s \<noteq> None \<or> blocklist = []")
    case True
    with Inr check_streams_items [where buffer = "[]" and pre = "[]" and log = "[]"] show ?thesis
      by (auto simp: file_log_def file_items_def)
  next
    case False
    then obtain s0 where "s0 \<in> set ss" "st_channel s0 = None" "blocklist \<noteq> []" by auto
    then have "file_log load channels blocklist sd fp \<noteq> []"
      by (intro file_log_throw_nonempty [where ss = ss]) (simp_all add: Inr)
    with Inr False show ?thesis by auto
  qed
qed

text \<open>
  In a file whose name gives no country hint the derived id is empty, so unless an entry
  of the blocklist has an empty channel, the blocklist matches a stream by its declared id
  alone: the name plays no part.
\<close>

lemma blocklist_without_hint:
  assumes "\<forall>b \<in> set blocklist. bl_channel b \<noteq> []"
  shows "first_by (blocked_match c (generateChannelId name [])) blocklist =
           first_by (\<lambda>b. toLowerCase c = toLowerCase (bl_channel b)) blocklist"
proof -
  have "toLowerCase [] \<noteq> toLowerCase (bl_channel b)" if "b \<in> set blocklist" for b
    using assms that by (metis toLowerCase_Nil_iff)
  then show ?thesis
    by (induction blocklist)
      (auto simp: first_by_def blocked_match_def generateChannelId_def generateChannelId_with_def)
qed

subsection \<open>Properties\<close>

text \<open>
  (C3) The stateful loop over a parsed file (URL buffer, growing log) computes the reference: each stream's items depend only on the URLs before it, and the items of the streams are concatenated in document order -- provided every stream has a declared channel or the blocklist is empty (then the throwing predicate never runs).
\<close>

theorem file_log_parsed:
  assumes "load (replace_first sd [] fp) = Inr ss"
    and "\<forall>s \<in> set ss. st_channel s \<noteq> None \<or> blocklist = []"
  shows "file_log load channels blocklist sd fp =
           file_items channels blocklist (countryCode_of (basename fp)) ss"
  using assms check_streams_items [where buffer = "[]" and pre = "[]" and log = "[]"]
  by (simp add: file_log_def file_items_def)

theorem file_log_parsed_witness:
  "file_log (\<lambda>_. Inr [(Stream.make (Some ''A.us'') ''A'' ''http://a'' None [] [] [] False 3 ''us.m3u'')]) [] [] ''streams'' ''streams/us.m3u'' =
     [warning_item 3 (quoted ''A.us'' @ '' is not in the database'')]"
proof -
  have "file_log (\<lambda>_. Inr [(Stream.make (Some ''A.us'') ''A'' ''http://a'' None [] [] [] False 3 ''us.m3u'')]) [] [] ''streams'' ''streams/us.m3u'' =
          file_items [] [] (countryCode_of (basename ''streams/us.m3u'')) [(Stream.make (Some ''A.us'') ''A'' ''http://a'' None [] [] [] False 3 ''us.m3u'')]"
    by (rule file_log_parsed) (simp_all add: Stream.make_def)
  then show ?thesis
    by (simp add: file_items_def stream_items_def unknown_channel_def channel_in_database_def
        first_by_def Stream.make_def)
qed

text \<open>
  (C7) A file that fails to parse yields exactly one error, at line 0, with the lower-cased exception message, and no stream check runs.
\<close>

theorem file_log_parse_error:
  assumes "load (replace_first sd [] fp) = Inl msg"
  shows "file_log load channels blocklist sd fp = [error_item 0 (toLowerCase msg)]"
  using assms by (simp add: file_log_def)

theorem file_log_parse_error_witness:
  "file_log (\<lambda>_. Inl ''Playlist is not valid'') [] [] ''streams'' ''streams/bad.m3u'' =
     [error_item 0 ''playlist is not valid'']"
proof -
  have "file_log (\<lambda>_. Inl ''Playlist is not valid'') [] [] ''streams'' ''streams/bad.m3u'' =
          [error_item 0 (toLowerCase ''Playlist is not valid'')]"
    by (rule file_log_parse_error) simp
  then show ?thesis by (simp add: toLowerCase_def ascii_simps)
qed

text \<open>
  (C6) With a non-empty blocklist, a stream with no declared channel (null) makes stream.channel.toLowerCase() throw: its earlier checks stay in the log, one line-0 error with the lower-cased TypeError message follows, and the rest of the file is not checked.
\<close>

theorem file_log_type_error:
  assumes "load (replace_first sd [] fp) = Inr (ss @ s0 # post)"
    and "\<forall>s \<in> set ss. st_channel s \<noteq> None" and "st_channel s0 = None"
    and "blocklist \<noteq> []"
  shows "file_log load channels blocklist sd fp =
           file_items channels blocklist (countryCode_of (basename fp)) (ss @ [s0]) @
           [error_item 0 (toLowerCase type_error_null)]"
  using assms check_streams_throw [where buffer = "[]" and pre = "[]" and log = "[]"]
  by (simp add: file_log_def file_items_def)

theorem file_log_type_error_witness:
  "file_log (\<lambda>_. Inr [(Stream.make (Some ''A.us'') ''A'' ''http://a'' None [] [] [] False 3 ''us.m3u''), (Stream.make None ''N'' ''http://n'' None [] [] [] False 4 ''us.m3u''), (Stream.make (Some ''B.us'') ''B'' ''http://a'' None [] [] [] False 5 ''us.m3u'')]) [\<lparr>ch_id = ''A.us'', ch_categories = [], ch_languages = [], ch_broadcastArea = [], ch_isNSFW = False, ch_logo = None\<rparr>] [\<lparr>bl_channel = ''X.us'', bl_ref = ''R''\<rparr>] ''streams'' ''streams/us.m3u'' =
     [error_item 0 (toLowerCase type_error_null)]"
proof -
  have "file_log (\<lambda>_. Inr ([(Stream.make (Some ''A.us'') ''A'' ''http://a'' None [] [] [] False 3 ''us.m3u'')] @ (Stream.make None ''N'' ''http://n'' None [] [] [] False 4 ''us.m3u'') # [(Stream.make (Some ''B.us'') ''B'' ''http://a'' None [] [] [] False 5 ''us.m3u'')])) [\<lparr>ch_id = ''A.us'', ch_categories = [], ch_languages = [], ch_broadcastArea = [], ch_isNSFW = False, ch_logo = None\<rparr>] [\<lparr>bl_channel = ''X.us'', bl_ref = ''R''\<rparr>] ''streams'' ''streams/us.m3u'' =
          file_items [\<lparr>ch_id = ''A.us'', ch_categories = [], ch_languages = [], ch_broadcastArea = [], ch_isNSFW = False, ch_logo = None\<rparr>] [\<lparr>bl_channel = ''X.us'', bl_ref = ''R''\<rparr>] (countryCode_of (basename ''streams/us.m3u'')) ([(Stream.make (Some ''A.us'') ''A'' ''http://a'' None [] [] [] False 3 ''us.m3u'')] @ [(Stream.make None ''N'' ''http://n'' None [] [] [] False 4 ''us.m3u'')]) @
          [error_item 0 (toLowerCase type_error_null)]"
    by (rule file_log_type_error) (simp_all add: Stream.make_def)
  then show ?thesis
    by (simp add: file_items_def stream_items_def unknown_channel_def channel_in_database_def
        first_by_def blocked_match_def Stream.make_def channel_id_simps ascii_simps)
qed

text \<open>
  (C1) A run over several files in which one playlist fails to parse reports failure (exit status 1), whatever the other files contain.
\<close>

theorem parse_failure_fails_run:
  assumes "fp \<in> set files" and "extension fp = ''m3u''"
    and "load (replace_first sd [] fp) = Inl msg"
  shows "snd (validate_main load channels blocklist sd files) = 1"
  using assms by (auto simp: validate_main_exit file_log_def is_error_def error_item_def)

theorem parse_failure_fails_run_witness:
  "snd (validate_main (\<lambda>rel. if rel = ''/bad.m3u'' then Inl ''Playlist is not valid'' else Inr [])
      [] [] ''streams'' [''streams/ok.m3u'', ''streams/bad.m3u'']) = 1"
  by (rule parse_failure_fails_run [where fp = "''streams/bad.m3u''" and msg = "''Playlist is not valid''"])
     (simp_all add: extension_def)

text \<open>
  (C2) A run whose playlist files log only warnings succeeds (exit status 0).
\<close>

theorem warnings_only_success:
  assumes "\<forall>fp \<in> set files. extension fp = ''m3u'' \<longrightarrow>
             (\<forall>i \<in> set (file_log load channels blocklist sd fp). is_warning i)"
  shows "snd (validate_main load channels blocklist sd files) = 0"
  using assms by (auto simp: validate_main_exit is_warning_def is_error_def)

theorem warnings_only_success_witness:
  "snd (validate_main (\<lambda>_. Inr [(Stream.make (Some ''A.us'') ''A'' ''http://a'' None [] [] [] False 3 ''us.m3u''), (Stream.make (Some ''B.us'') ''B'' ''http://a'' None [] [] [] False 5 ''us.m3u'')]) [\<lparr>ch_id = ''A.us'', ch_categories = [], ch_languages = [], ch_broadcastArea = [], ch_isNSFW = False, ch_logo = None\<rparr>, \<lparr>ch_id = ''B.us'', ch_categories = [], ch_languages = [], ch_broadcastArea = [], ch_isNSFW = False, ch_logo = None\<rparr>] [] ''streams'' [''streams/us.m3u'']) = 0"
proof (rule warnings_only_success)
  have "file_log (\<lambda>_. Inr [(Stream.make (Some ''A.us'') ''A'' ''http://a'' None [] [] [] False 3 ''us.m3u''), (Stream.make (Some ''B.us'') ''B'' ''http://a'' None [] [] [] False 5 ''us.m3u'')]) [\<lparr>ch_id = ''A.us'', ch_categories = [], ch_languages = [], ch_broadcastArea = [], ch_isNSFW = False, ch_logo = None\<rparr>, \<lparr>ch_id = ''B.us'', ch_categories = [], ch_languages = [], ch_broadcastArea = [], ch_isNSFW = False, ch_logo = None\<rparr>] [] ''streams'' ''streams/us.m3u'' =
          [warning_item 5 (quoted ''http://a'' @ '' is already on the playlist'')]"
    by (simp add: file_log_def check_stream_def unknown_channel_def channel_in_database_def
        first_by_def already_on_playlist_def Stream.make_def Let_def)
  then show "\<forall>fp \<in> set [''streams/us.m3u'']. extension fp = ''m3u'' \<longrightarrow>
      (\<forall>i \<in> set (file_log (\<lambda>_. Inr [(Stream.make (Some ''A.us'') ''A'' ''http://a'' None [] [] [] False 3 ''us.m3u''), (Stream.make (Some ''B.us'') ''B'' ''http://a'' None [] [] [] False 5 ''us.m3u'')]) [\<lparr>ch_id = ''A.us'', ch_categories = [], ch_languages = [], ch_broadcastArea = [], ch_isNSFW = False, ch_logo = None\<rparr>, \<lparr>ch_id = ''B.us'', ch_categories = [], ch_languages = [], ch_broadcastArea = [], ch_isNSFW = False, ch_logo = None\<rparr>] [] ''streams'' fp). is_warning i)"
    by (simp add: is_warning_def warning_item_def)
qed

text \<open>
  (C4) A stream whose derived id matches a blocklist entry case-insensitively gets exactly one error, and it cites the ref of the first entry of the blocklist that matches either id, whatever the later entries and whatever its declared channel id.
\<close>

theorem blocklist_single_error:
  assumes "st_channel s = Some c" and "blocklist = pre @ b # post"
    and "toLowerCase (generateChannelId (st_name s) cc) = toLowerCase (bl_channel b)"
    and "\<forall>b' \<in> set pre. toLowerCase c \<noteq> toLowerCase (bl_channel b') \<and>
           toLowerCase (generateChannelId (st_name s) cc) \<noteq> toLowerCase (bl_channel b')"
  shows "filter is_error (stream_items channels blocklist cc seen s) =
           [error_item (st_line s) (quoted (st_name s) @
              '' is on the blocklist due to claims of copyright holders ('' @ bl_ref b @ '')'')]"
proof -
  have "first_by (blocked_match c (generateChannelId (st_name s) cc)) blocklist = Some b"
    using assms(3,4) unfolding assms(2)
    by (induction pre) (auto simp: first_by_def blocked_match_def)
  with assms(1) show ?thesis
    by (auto simp: stream_items_def is_error_def warning_item_def error_item_def)
qed

theorem blocklist_single_error_witness:
  "filter is_error (stream_items []
      [\<lparr>bl_channel = ''X.us'', bl_ref = ''R0''\<rparr>, \<lparr>bl_channel = ''CNNINTERNATIONAL.US'', bl_ref = ''DMCA-123''\<rparr>,
       \<lparr>bl_channel = ''cnninternational.us'', bl_ref = ''DMCA-999''\<rparr>] ''us'' {}
      (Stream.make (Some ''Other.us'') ''CNN International'' ''http://c'' None [] [] [] False 9 ''us.m3u'')) =
     [error_item 9 (quoted ''CNN International'' @
        '' is on the blocklist due to claims of copyright holders (DMCA-123)'')]"
proof -
  have "filter is_error (stream_items []
      ([\<lparr>bl_channel = ''X.us'', bl_ref = ''R0''\<rparr>] @ \<lparr>bl_channel = ''CNNINTERNATIONAL.US'', bl_ref = ''DMCA-123''\<rparr> #
       [\<lparr>bl_channel = ''cnninternational.us'', bl_ref = ''DMCA-999''\<rparr>]) ''us'' {}
      (Stream.make (Some ''Other.us'') ''CNN International'' ''http://c'' None [] [] [] False 9 ''us.m3u'')) =
     [error_item (st_line (Stream.make (Some ''Other.us'') ''CNN International'' ''http://c'' None [] [] [] False 9 ''us.m3u''))
        (quoted (st_name (Stream.make (Some ''Other.us'') ''CNN International'' ''http://c'' None [] [] [] False 9 ''us.m3u'')) @
        '' is on the blocklist due to claims of copyright holders ('' @
        bl_ref \<lparr>bl_channel = ''CNNINTERNATIONAL.US'', bl_ref = ''DMCA-123''\<rparr> @ '')'')]"
    by (rule blocklist_single_error [where c = "''Other.us''" and pre = "[\<lparr>bl_channel = ''X.us'', bl_ref = ''R0''\<rparr>]"
          and post = "[\<lparr>bl_channel = ''cnninternational.us'', bl_ref = ''DMCA-999''\<rparr>]"])
      (simp_all add: Stream.make_def channel_id_simps ascii_simps)
  then show ?thesis by (simp add: Stream.make_def)
qed

text \<open>
  (C5) Two entries with the same non-empty URL, known channels and no blocklist hit: the loop over the file logs exactly one warning, on the second entry.
\<close>

theorem duplicate_url_single_warning:
  assumes "st_channel s1 = Some c1" and "st_channel s2 = Some c2"
    and "\<not> unknown_channel channels (Some c1)" and "\<not> unknown_channel channels (Some c2)"
    and "st_url s1 = st_url s2" and "st_url s1 \<noteq> []"
    and "first_by (blocked_match c1 (generateChannelId (st_name s1) cc)) blocklist = None"
    and "first_by (blocked_match c2 (generateChannelId (st_name s2) cc)) blocklist = None"
  shows "check_streams channels blocklist cc ([], []) [s1, s2] =
           Inr [warning_item (st_line s2) (quoted (st_url s2) @ '' is already on the playlist'')]"
  using assms check_streams_items [where ss = "[s1, s2]" and buffer = "[]" and pre = "[]" and log = "[]"]
  by (simp add: stream_items_def)

theorem duplicate_url_single_warning_witness:
  "check_streams [\<lparr>ch_id = ''A.us'', ch_categories = [], ch_languages = [], ch_broadcastArea = [], ch_isNSFW = False, ch_logo = None\<rparr>, \<lparr>ch_id = ''B.us'', ch_categories = [], ch_languages = [], ch_broadcastArea = [], ch_isNSFW = False, ch_logo = None\<rparr>] [] ''us'' ([], []) [(Stream.make (Some ''A.us'') ''A'' ''http://a'' None [] [] [] False 3 ''us.m3u''), (Stream.make (Some ''B.us'') ''B'' ''http://a'' None [] [] [] False 5 ''us.m3u'')] =
     Inr [warning_item 5 (quoted ''http://a'' @ '' is already on the playlist'')]"
proof -
  have "check_streams [\<lparr>ch_id = ''A.us'', ch_categories = [], ch_languages = [], ch_broadcastArea = [], ch_isNSFW = False, ch_logo = None\<rparr>, \<lparr>ch_id = ''B.us'', ch_categories = [], ch_languages = [], ch_broadcastArea = [], ch_isNSFW = False, ch_logo = None\<rparr>] [] ''us'' ([], []) [(Stream.make (Some ''A.us'') ''A'' ''http://a'' None [] [] [] False 3 ''us.m3u''), (Stream.make (Some ''B.us'') ''B'' ''http://a'' None [] [] [] False 5 ''us.m3u'')] =
          Inr [warning_item (st_line (Stream.make (Some ''B.us'') ''B'' ''http://a'' None [] [] [] False 5 ''us.m3u'')) (quoted (st_url (Stream.make (Some ''B.us'') ''B'' ''http://a'' None [] [] [] False 5 ''us.m3u'')) @ '' is already on the playlist'')]"
    by (rule duplicate_url_single_warning)
       (auto simp: Stream.make_def unknown_channel_def channel_in_database_def first_by_def)
  then show ?thesis by (simp add: Stream.make_def)
qed

text \<open>
  (C12) The printed position of a log item reads back as its line number: the
  \<open>padEnd(6)\<close> field is never truncated, and the digits end where the padding or the type
  begins.
\<close>

theorem format_item_line_roundtrip:
  "nat_of_digits (takeWhile is_digit (drop 1 (format_item i))) = log_line i"
proof -
  let ?ys = "replicate (6 - length (string_of_nat (log_line i))) (CHR '' '') @
             padEnd 9 (log_type_string (log_type i)) @ log_message i"
  have "?ys = [] \<or> \<not> is_digit (hd ?ys)"
    by (cases "6 - length (string_of_nat (log_line i))"; cases "log_type i")
       (auto simp: padEnd_def log_type_string_def ascii_simps)
  then have "takeWhile is_digit (drop 1 (format_item i)) = string_of_nat (log_line i)"
    by (simp add: format_item_def padEnd_def takeWhile_digits_string_of_nat)
  then show ?thesis by (simp add: nat_of_string_of_nat)
qed

text \<open>
  A line number of seven digits fills the six-character position field and runs into the
  type column: the field is padded on the right and never truncated.
\<close>

theorem format_item_no_truncation:
  "format_item (error_item 1234567 ''x'') = '' 1234567error    x''"
  by (simp add: format_item_def error_item_def padEnd_def log_type_string_def
      string_of_nat.simps digit_char_def)
     (simp add: numeral_eq_Suc)

text \<open>
  (C9) The report is assembled file by file: after the two header lines, each playlist file
  with a non-empty log contributes its path and its formatted items, computed from that file
  alone, so a failing file hides nothing of the others; non-playlist files print nothing.
\<close>

theorem validate_main_report:
  "butlast (fst (validate_main load channels blocklist sd files)) =
     [''loading blocklist...'', ''found '' @ string_of_nat (length blocklist) @ '' records''] @
     concat (map (\<lambda>fp. let log = file_log load channels blocklist sd fp in
                       if log = [] then [] else (CHR ''\<newline>'' # fp) # map format_item log)
                 (filter (\<lambda>fp. extension fp = ''m3u'') files))"
  by (simp add: validate_main_def vstate0_def Let_def validate_files_out)

text \<open>
  (C10) The summary line counts every printed item exactly once: the number of problems is the
  total length of the logs of the playlist files, split into their errors and warnings.
\<close>

theorem validate_main_summary:
  "last (fst (validate_main load channels blocklist sd files)) =
     CHR ''\<newline>'' # string_of_nat (sum_list (map (\<lambda>fp. length (file_log load channels blocklist sd fp))
                                             (filter (\<lambda>fp. extension fp = ''m3u'') files))) @
     '' problems ('' @
     string_of_nat (length (concat (map (\<lambda>fp. filter is_error (file_log load channels blocklist sd fp))
                                     (filter (\<lambda>fp. extension fp = ''m3u'') files)))) @ '' errors, '' @
     string_of_nat (length (concat (map (\<lambda>fp. filter is_warning (file_log load channels blocklist sd fp))
                                     (filter (\<lambda>fp. extension fp = ''m3u'') files)))) @ '' warnings)''"
proof -
  let ?st0 = "\<lparr>errors = [], warnings = [],
              out = [''loading blocklist...'', ''found '' @ string_of_nat (length blocklist) @ '' records'']\<rparr>"
  have "last (fst (validate_main load channels blocklist sd files)) =
          summary_line (validate_files load channels blocklist sd ?st0 files)"
    by (simp add: validate_main_def vstate0_def Let_def del: append.simps)
  then show ?thesis
    using validate_files_count [of load channels blocklist sd ?st0 files]
      validate_files_errors [of load channels blocklist sd ?st0 files]
    by (simp add: summary_line_def)
qed

text \<open>
  (C11) Every error the validator logs is either a blocklist hit citing an entry of the
  blocklist or the line-0 item of a caught exception: unknown channels and duplicate URLs
  are never errors.
\<close>

theorem file_log_error_sources:
  assumes "i \<in> set (file_log load channels blocklist sd fp)" and "is_error i"
  shows "log_line i = 0 \<or> blocklist_error blocklist i"
proof (cases "load (replace_first sd [] fp)")
  case (Inl msg)
  with assms show ?thesis by (simp add: file_log_def error_item_def)
next
  case (Inr ss)
  with assms check_streams_errors [of "[]" blocklist channels "countryCode_of (basename fp)" "[]" ss]
  show ?thesis by (auto simp: file_log_def error_item_def split: sum.splits prod.splits)
qed

theorem file_log_error_sources_witness:
  "log_line (error_item 9 (quoted ''CNN International'' @ '' is on the blocklist due to claims of copyright holders (DMCA-123)'')) = 0 \<or> blocklist_error [\<lparr>bl_channel = ''CNNInternational.us'', bl_ref = ''DMCA-123''\<rparr>] (error_item 9 (quoted ''CNN International'' @ '' is on the blocklist due to claims of copyright holders (DMCA-123)''))"
  by (rule file_log_error_sources [where load = "(\<lambda>_. Inr [Stream.make (Some ''Other.us'') ''CNN International'' ''http://c'' None [] [] [] False 9 ''us.m3u''])" and channels = "[]" and sd = "''streams''"
        and fp = "''streams/us.m3u''"])
     code_simp+


text \<open>
  (C8) A playlist file passes, its log empty, exactly when it parses and its streams are
  clean in the terms of the spec: no stream lacks a channel while the blocklist is non-empty,
  every non-empty declared channel is in the database, the non-empty URLs are distinct, and
  neither the declared nor the derived id of a stream equals a blocklist entry's channel
  ignoring case.
\<close>

theorem file_log_empty_iff:
  "file_log load channels blocklist sd fp = [] \<longleftrightarrow>
     (\<exists>ss. load (replace_first sd [] fp) = Inr ss \<and>
        (\<forall>s \<in> set ss. st_channel s = None \<longrightarrow> blocklist = []) \<and>
        (\<forall>s \<in> set ss. \<forall>c. st_channel s = Some c \<longrightarrow> c = [] \<or> (\<exists>ch \<in> set channels. ch_id ch = c)) \<and>
        (\<forall>s \<in> set ss. \<forall>c. st_channel s = Some c \<longrightarrow> (\<forall>b \<in> set blocklist.
           toLowerCase c \<noteq> toLowerCase (bl_channel b) \<and>
           toLowerCase (generateChannelId (st_name s) (countryCode_of (basename fp))) \<noteq>
             toLowerCase (bl_channel b))) \<and>
        distinct (filter (\<lambda>u. u \<noteq> []) (map st_url ss)))"
proof -
  have known: "\<not> unknown_channel channels (Some c) \<longleftrightarrow> c = [] \<or> (\<exists>ch \<in> set channels. ch_id ch = c)"
    for c by (auto simp: unknown_channel_def channel_in_database_def first_by_def find_None_iff')
  have sk: "\<not> unknown_channel channels (st_channel s) \<longleftrightarrow>
      (\<forall>c. st_channel s = Some c \<longrightarrow> c = [] \<or> (\<exists>ch \<in> set channels. ch_id ch = c))" for s :: Stream
    using known by (cases "st_channel s") (auto simp: unknown_channel_def)
  have unblocked: "first_by (blocked_match c d) blocklist = None \<longleftrightarrow>
      (\<forall>b \<in> set blocklist. toLowerCase c \<noteq> toLowerCase (bl_channel b) \<and> toLowerCase d \<noteq> toLowerCase (bl_channel b))"
    for c d by (auto simp: first_by_def find_None_iff' blocked_match_def)
  have eq: "(\<forall>s \<in> set ss. \<not> unknown_channel channels (st_channel s) \<and>
          (\<forall>c. st_channel s = Some c \<longrightarrow>
             first_by (blocked_match c (generateChannelId (st_name s) cc)) blocklist = None)) \<longleftrightarrow>
        (\<forall>s \<in> set ss. \<forall>c. st_channel s = Some c \<longrightarrow> c = [] \<or> (\<exists>ch \<in> set channels. ch_id ch = c)) \<and>
        (\<forall>s \<in> set ss. \<forall>c. st_channel s = Some c \<longrightarrow> (\<forall>b \<in> set blocklist.
           toLowerCase c \<noteq> toLowerCase (bl_channel b) \<and>
           toLowerCase (generateChannelId (st_name s) cc) \<noteq> toLowerCase (bl_channel b)))"
    for ss :: "Stream list" and cc
    by (simp only: sk unblocked ball_conj_distrib)
  show ?thesis by (simp only: file_log_Nil_iff file_items_Nil_iff eq conj_assoc)
qed

theorem file_log_empty_iff_witness:
  "file_log (\<lambda>_. Inr [Stream.make (Some ''A.us'') ''A'' ''http://a'' None [] [] [] False 3 ''us.m3u'',
                      Stream.make (Some []) ''B'' [] None [] [] [] False 5 ''us.m3u'',
                      Stream.make (Some []) ''C'' [] None [] [] [] False 7 ''us.m3u''])
     [\<lparr>ch_id = ''A.us'', ch_categories = [], ch_languages = [], ch_broadcastArea = [],
       ch_isNSFW = False, ch_logo = None\<rparr>]
     [\<lparr>bl_channel = ''X.us'', bl_ref = ''R''\<rparr>] ''streams'' ''streams/us.m3u'' = []"
  by (subst file_log_empty_iff) (simp add: Stream.make_def channel_id_simps ascii_simps)

end
