(* ===== verification/Spec2Isabelle.thy ===== *)
theory Spec2Isabelle
  imports Generate Validate
begin

text \<open>
  \<^bold>\<open>A verification model of the playlist scripts of tpadev/iptv-id.\<close>

  The repository's sources are two scripts: src/scripts/commands/playlist/validate.ts,
  which checks playlist files against the channel database and the blocklist, and
  src/scripts/commands/playlist/generate.ts, which reconciles the stream database with the
  channel data before the playlist generators run.  They call collaborators that are not
  part of the sources (src/core: Storage, PlaylistParser, Collection, File; src/models;
  lodash; the transliteration package); those are modelled from the spec, and each theory
  says which of its definitions are.

  \<^bold>\<open>Theories and what they model.\<close>
  \<^item> Prelude: the JavaScript string primitives the scripts use, on ASCII
    (\<open>toLowerCase\<close>, \<open>toUpperCase\<close>, \<open>trim\<close>, \<open>padEnd\<close>, \<open>Number.toString\<close> as
    \<open>string_of_nat\<close>, \<open>String.replace\<close> with a string pattern as \<open>replace_first\<close>), the
    character classes of the regular expressions, and a decimal round trip
    (\<open>nat_of_string_of_nat\<close>).
  \<^item> Models: the records \<open>Channel\<close>, \<open>Category\<close>, \<open>Language\<close>, \<open>Blocked\<close>,
    \<open>Stream\<close> of the data model and \<open>LogItem\<close> of validate.ts (lines 12--16); an optional
    JavaScript value is an \<open>option\<close>, \<open>truthy\<close> is JavaScript truthiness.
  \<^item> ChannelId: \<open>generateChannelId\<close> (validate.ts 121--133).  Each
    \<open>replace(/re/g, r)\<close> is \<open>replace_all m r\<close> with a matcher \<open>m\<close> written from the
    regular expression's leftmost backtracking match (\<open>match_paren\<close>,
    \<open>match_bracket\<close>, \<open>match_plus\<close>, \<open>match_nonalnum\<close>); \<open>replace_all\<close> advances
    one character after an empty match, as \<open>String.prototype.replace\<close> does, and
    \<open>generateChannelId_with\<close> keeps the transliteration a parameter.  Lemmas:
    transliteration is dead code; the bracket expression deletes the text between two
    bracketed groups; a non-empty id is an alphanumeric name, a dot and a lower-case code.
  \<^item> Playlist: the path helpers of \<open>File\<close>, the validator's country hint (validate.ts
    39, \<open>countryCode_of\<close>, an unanchored case-insensitive search), the reconciler's
    default area (generate.ts 137--141, \<open>default_broadcast_area\<close>), and the playlist
    parser of the spec (\<open>parse_playlist\<close>: header, directives, URL lines, an error for a
    URL without a directive).  The parser model gives every stream a channel, empty when
    the directive has no \<open>tvg-id\<close>; none of the properties of Validate depends on this,
    since they are stated for any loader.  Lemmas: the two file-name patterns agree where
    the anchored one matches and disagree elsewhere.
  \<^item> ChannelIndex: \<open>keyBy\<close> indexes (generate.ts 109--111) as maps, later duplicates
    overwriting, and the linear \<open>first\<close> search of validate.ts 48.
  \<^item> Reconcile: \<open>loadStreams\<close> (generate.ts 100--148) as \<open>orderBy_streams\<close> (a
    stable sort on the key \<open>(channel, url)\<close>, no channel last), \<open>uniqBy_streams\<close> (the
    iteratee \<open>channel || _.uniqueId()\<close> with lodash's id counter \<open>n\<close> threaded through
    \<open>uniq_keys\<close>, first occurrence kept by \<open>uniq_keyed\<close>) and \<open>enrich_stream\<close>.
    Two references state the spec's contract without the model's encodings:
    \<open>stream_le\<close>, the order of 4.4 step 1 written as a comparison of two streams, and
    \<open>dedup_ref\<close>, the identity rule of deduplication with no counter.  Lemmas: the result
    is ordered by \<open>stream_le\<close>; one survivor per channel, the one with the smallest URL;
    \<open>uniqBy\<close> equals \<open>dedup_ref\<close> unless a channel id is a numeral, and a numeral id
    collides with the counter; enrichment in both branches.
  \<^item> Validate: \<open>main\<close> of validate.ts (18--117).  \<open>check_stream\<close> is one iteration
    of the \<open>forEach\<close> over the state (URL buffer, log); a thrown \<open>TypeError\<close> is the
    \<open>Inl\<close> branch carrying the partial log.  \<open>file_log\<close> handles one file with both
    exception paths, \<open>validate_file\<close> and \<open>validate_files\<close> the loop over files with the
    state record \<open>VState\<close> (errors, warnings, printed lines), \<open>validate_main\<close> the
    report and the exit status.  Reading a file is the parameter \<open>load\<close>, so the lemmas
    hold for any parser; \<open>load_playlist\<close> plugs in the parser of Playlist.  The
    reference \<open>file_items\<close> gives each stream's items from the URLs before it; the loop
    refines it.  Lemmas: the exit status is 1 exactly when some playlist file logs an error;
    the report is assembled file by file and the summary counts every item once; the
    blocklist (first matching entry), duplicate-URL, parse-error and \<open>TypeError\<close> paths;
    a file logs nothing exactly when it parses and its streams are clean in the spec's
    terms; every error is a blocklist hit or a line-0 exception; the printed position
    reads back as the line number.  \<open>select_files\<close> and \<open>validate_cli\<close> model the file
    arguments of lines 10 and 34.
  \<^item> Generate: \<open>main\<close> of generate.ts (21--98) as a trace of events: the log stream,
    the info lines and the ten generator runs with the options object each receives.  The
    generators' outcome is the parameter \<open>ok\<close>; \<open>run_events\<close> performs the
    sequential \<open>await\<close>s, a rejection ending the run (\<open>main()\<close> is not awaited, so
    the rejection is unhandled and the process fails).  Lemmas: every generator gets the one
    reconciled list, so none sees two streams of a channel; a failure stops the rest.

  \<^bold>\<open>Interaction.\<close>  The validator and the reconciler share the channel data and
  the country-from-file-name idea: the theorems at the end of Playlist relate the two
  scripts' readings of a file name, and Generate composes the reconciler with the
  generators.  The validator's properties take the loader as a parameter, so they hold
  whatever the parser.

  \<^bold>\<open>Termination and bounds.\<close>  Every function is total: recursion is structural except
  \<open>replace_all\<close>, whose termination is proved by the measure \<open>length\<close> (a match of
  length \<open>k > 0\<close> drops \<open>k\<close> characters, an empty match one), and \<open>string_of_nat\<close>,
  which recurses on \<open>n div 10\<close>.  No fuel is needed.  Line numbers and counters are
  \<open>nat\<close>: JavaScript numbers exceed \<open>2^53\<close> only beyond any realistic playlist.

  \<^bold>\<open>Not modelled.\<close>  The stream database (Database), the JSON loading of the
  data files, the storage listing \<open>streamsStorage.list('**/*.m3u')\<close> (the listing is an
  input), commander's parsing of \<open>process.argv\<close> (the arguments are an input), the
  logger and chalk colours (taken as the identity), \<open>path.normalize\<close> of the streams
  directory (taken as the directory string itself), the generators of src/generators (not
  in the sources; Generate models which generator runs, with which inputs, in which
  order); Unicode beyond ASCII (non-ASCII text is represented by its UTF-8 bytes, which
  every ASCII class rejects, as JavaScript's code units would be; \<open>toLowerCase\<close> of
  non-ASCII letters is not modelled); the transliteration table.

  \<^bold>\<open>Findings.\<close>  The bracket expression of validate.ts 125 uses \<open>[^)]\<close> for
  \<open>[^\]]\<close>; transliteration runs after non-ASCII text has been removed; the validator's
  country hint is unanchored where the spec describes a leading prefix; \<open>_.uniqueId()\<close>
  values can collide with numeral channel ids, which also makes a second reconciliation in
  the same process differ from the first; a null channel aborts a file's checks; the
  position column is padded, never truncated; in a file with no country hint the derived
  id is empty, so the blocklist matches by declared id alone (\<open>blocklist_without_hint\<close>).
\<close>

end
